theory Spec2Isabelle
  imports Complex_Main "HOL-Library.AList"
begin

section \<open>The example world server: data model\<close>

text \<open>
  The server under study is the Socket.io world server of the repository
  (\<^verbatim>\<open>world/example-server.js\<close>).  Its process-wide state is three JavaScript
  \<^verbatim>\<open>Map\<close>s (\<^verbatim>\<open>worlds\<close>, \<^verbatim>\<open>userSockets\<close>, \<^verbatim>\<open>rateLimits\<close>) and, for every connected
  socket, the closure of the \<^verbatim>\<open>io.on('connection')\<close> callback, which captures
  \<^verbatim>\<open>userId\<close>, \<^verbatim>\<open>worldId\<close> and a reference to one inner \<^verbatim>\<open>Map\<close> object \<^verbatim>\<open>world\<close>.

  Because a closure keeps its reference to the inner \<^verbatim>\<open>Map\<close> even after the
  registry has dropped or replaced the entry of that world id, the inner maps
  live in an explicit store (\<open>heap\<close>, addresses are natural numbers) and both
  the registry and the closures hold addresses.

  A JavaScript \<^verbatim>\<open>Map\<close> iterates in insertion order, \<^verbatim>\<open>set\<close> on a present key
  keeps the key's place and \<^verbatim>\<open>set\<close> on a new key appends: this is
  \<^const>\<open>AList.update\<close> on an association list.  \<^verbatim>\<open>Date.now()\<close> readings are
  integers supplied with each event.
\<close>

type_synonym userId = string
type_synonym worldId = string
type_synonym socketId = string

text \<open>
  A JavaScript number is an IEEE 754 binary64 value: a finite double, given by
  the real number it stands for, one of the two infinities, or NaN.  The sign
  of zero is not represented; it has no influence on any comparison made by
  the server.
\<close>

datatype js_number = Num real | PosInfinity | NegInfinity | NaN

record position =
  pos_x :: js_number
  pos_y :: js_number

record player =
  player_id :: userId
  username :: string
  position :: position
  direction :: string
  isMoving :: bool
  avatar :: string
  timestamp :: int

text \<open>The payload of \<^verbatim>\<open>player:move\<close>; \<^verbatim>\<open>update.position\<close> may be missing.\<close>

record movement_update =
  upd_position :: "position option"
  upd_direction :: string
  upd_isMoving :: bool

text \<open>\<^verbatim>\<open>socket.handshake.auth\<close>: every field may be undefined.\<close>

record handshake_auth =
  auth_userId :: "string option"
  auth_worldId :: "string option"
  auth_username :: "string option"

text \<open>What the connection callback's closure captures for its handlers.\<close>

record session =
  userId :: userId
  worldId :: worldId
  world :: nat

type_synonym world_map = "(userId \<times> player) list"

record state =
  heap :: "nat \<Rightarrow> world_map"
  nextAddr :: nat
  worlds :: "(worldId \<times> nat) list"
  userSockets :: "userId \<rightharpoonup> socketId"
  rateLimits :: "socketId \<rightharpoonup> int"
  sessions :: "(socketId \<times> session) list"

datatype message =
    Error string
  | WorldState "player list"
  | PlayerJoined player
  | PlayerPositionReset position
  | PlayerMoved userId position string bool int
  | ChatMessage userId string string int
  | InteractionInitiated userId string
  | InteractionReceived userId string
  | PlayerEmoted userId string int
  | PlayerLeft userId

datatype js_error = TypeError

text \<open>
  What a handler does to the outside: a message delivered to one socket, a
  socket closed by the server, or an exception escaping the handler.
\<close>

datatype effect =
    Emit socketId message
  | Disconnected socketId
  | Raised js_error

datatype event =
    Connection socketId handshake_auth int
  | PlayerMove socketId movement_update int int
  | ChatEvent socketId string int
  | PlayerInteract socketId userId
  | PlayerEmote socketId string int
  | Disconnect socketId
  | Cleanup int

definition MAX_PLAYERS_PER_WORLD :: nat where
  "MAX_PLAYERS_PER_WORLD = 50"

definition UPDATE_RATE_LIMIT :: int where
  "UPDATE_RATE_LIMIT = 50"

definition init :: state where
  "init = \<lparr> heap = (\<lambda>_. []), nextAddr = 0, worlds = [], userSockets = Map.empty,
            rateLimits = Map.empty, sessions = [] \<rparr>"

section \<open>Socket.io rooms\<close>

text \<open>
  A socket joins exactly one room, the one of its world id, in the connection
  callback and leaves it when it disconnects.  The members of a room are
  therefore the connected sockets whose closure carries that world id.
  \<^verbatim>\<open>io.to(room).emit\<close> reaches every member once, \<^verbatim>\<open>socket.to(room).emit\<close>
  every member but the socket itself, and \<^verbatim>\<open>io.to(socketId).emit\<close> the socket
  of that id if it is connected (world ids are taken not to coincide with
  socket ids).
\<close>

definition room_members :: "state \<Rightarrow> worldId \<Rightarrow> socketId list" where
  "room_members st wid = map fst (filter (\<lambda>(s, c). worldId c = wid) (sessions st))"

definition io_to :: "state \<Rightarrow> worldId \<Rightarrow> message \<Rightarrow> effect list" where
  "io_to st wid m = map (\<lambda>s. Emit s m) (room_members st wid)"

definition socket_to :: "state \<Rightarrow> socketId \<Rightarrow> worldId \<Rightarrow> message \<Rightarrow> effect list" where
  "socket_to st sock wid m = map (\<lambda>s. Emit s m) (filter (\<lambda>s. s \<noteq> sock) (room_members st wid))"

definition io_to_socket :: "state \<Rightarrow> socketId \<Rightarrow> message \<Rightarrow> effect list" where
  "io_to_socket st sid m = (case map_of (sessions st) sid of None \<Rightarrow> [] | Some _ \<Rightarrow> [Emit sid m])"

section \<open>Double-precision arithmetic\<close>

text \<open>
  Every arithmetic operation of the server computes the exact real result and
  rounds it to the nearest double, ties to the even significand.  A double has
  a significand of 53 bits; the spacing of the doubles around \<open>x\<close> is
  \<open>2 ^ (e - 52)\<close> where \<open>2 ^ e \<le> \<bar>x\<bar> < 2 ^ (e + 1)\<close>, with \<open>e\<close> not below \<open>-1022\<close>
  (below that the doubles are subnormal and evenly spaced).  A result that
  rounds to \<open>2 ^ 1024\<close> or beyond overflows to an infinity.
\<close>

definition rne :: "real \<Rightarrow> int" where
  "rne y = (let f = \<lfloor>y\<rfloor>; r = y - of_int f in
            if r < 1 / 2 then f else if 1 / 2 < r then f + 1
            else if even f then f else f + 1)"

definition binade :: "real \<Rightarrow> int" where
  "binade x = max \<lfloor>log 2 \<bar>x\<bar>\<rfloor> (- 1022)"

definition quantum :: "real \<Rightarrow> real" where
  "quantum x = 2 powr (of_int (binade x) - 52)"

definition round_to_grid :: "real \<Rightarrow> real" where
  "round_to_grid x = (if x = 0 then 0 else quantum x * of_int (rne (x / quantum x)))"

definition huge64 :: real where
  "huge64 = 2 powr 1024"

definition round64 :: "real \<Rightarrow> js_number" where
  "round64 x = (let r = round_to_grid x in
                if huge64 \<le> r then PosInfinity
                else if r \<le> - huge64 then NegInfinity
                else Num r)"

text \<open>Bounds on the rounding error: relative \<open>2 ^ -53\<close>, absolute \<open>2 ^ -1075\<close> under underflow.\<close>

definition eps64 :: real where "eps64 = 1 / 2 ^ 53"

definition eta64 :: real where "eta64 = 1 / 2 ^ 1075"

definition tiny :: real where "tiny = 1 / 2 ^ 100"

text \<open>The operators \<^verbatim>\<open>-\<close>, \<^verbatim>\<open>+\<close>, \<^verbatim>\<open>*\<close>, \<^verbatim>\<open>Math.sqrt\<close> and \<^verbatim>\<open><=\<close> on numbers.\<close>

fun js_neg :: "js_number \<Rightarrow> js_number" where
  "js_neg (Num x) = Num (- x)"
| "js_neg PosInfinity = NegInfinity"
| "js_neg NegInfinity = PosInfinity"
| "js_neg NaN = NaN"

fun js_add :: "js_number \<Rightarrow> js_number \<Rightarrow> js_number" where
  "js_add (Num x) (Num y) = round64 (x + y)"
| "js_add NaN _ = NaN"
| "js_add _ NaN = NaN"
| "js_add PosInfinity NegInfinity = NaN"
| "js_add NegInfinity PosInfinity = NaN"
| "js_add PosInfinity _ = PosInfinity"
| "js_add _ PosInfinity = PosInfinity"
| "js_add NegInfinity _ = NegInfinity"
| "js_add _ NegInfinity = NegInfinity"

definition js_sub :: "js_number \<Rightarrow> js_number \<Rightarrow> js_number" where
  "js_sub a b = js_add a (js_neg b)"

fun js_mul :: "js_number \<Rightarrow> js_number \<Rightarrow> js_number" where
  "js_mul (Num x) (Num y) = round64 (x * y)"
| "js_mul NaN _ = NaN"
| "js_mul _ NaN = NaN"
| "js_mul (Num x) PosInfinity = (if x = 0 then NaN else if 0 < x then PosInfinity else NegInfinity)"
| "js_mul (Num x) NegInfinity = (if x = 0 then NaN else if 0 < x then NegInfinity else PosInfinity)"
| "js_mul PosInfinity (Num y) = (if y = 0 then NaN else if 0 < y then PosInfinity else NegInfinity)"
| "js_mul NegInfinity (Num y) = (if y = 0 then NaN else if 0 < y then NegInfinity else PosInfinity)"
| "js_mul PosInfinity PosInfinity = PosInfinity"
| "js_mul NegInfinity NegInfinity = PosInfinity"
| "js_mul PosInfinity NegInfinity = NegInfinity"
| "js_mul NegInfinity PosInfinity = NegInfinity"

fun js_sqrt :: "js_number \<Rightarrow> js_number" where
  "js_sqrt (Num x) = (if x < 0 then NaN else round64 (sqrt x))"
| "js_sqrt PosInfinity = PosInfinity"
| "js_sqrt NegInfinity = NaN"
| "js_sqrt NaN = NaN"

fun js_le :: "js_number \<Rightarrow> js_number \<Rightarrow> bool" where
  "js_le (Num x) (Num y) = (x \<le> y)"
| "js_le NaN _ = False"
| "js_le _ NaN = False"
| "js_le NegInfinity _ = True"
| "js_le _ PosInfinity = True"
| "js_le PosInfinity _ = False"
| "js_le _ NegInfinity = False"

section \<open>Helpers of the server\<close>

text \<open>\<^verbatim>\<open>!v\<close> on a handshake field: undefined and the empty string are falsy.\<close>

definition truthy :: "string option \<Rightarrow> string option" where
  "truthy v = (case v of None \<Rightarrow> None | Some s \<Rightarrow> if s = [] then None else Some s)"

definition getWorld :: "worldId \<Rightarrow> state \<Rightarrow> nat \<times> state" where
  "getWorld wid st =
     (case map_of (worlds st) wid of
        Some a \<Rightarrow> (a, st)
      | None \<Rightarrow>
          (nextAddr st,
           st\<lparr> heap := (heap st)(nextAddr st := []),
               nextAddr := Suc (nextAddr st),
               worlds := AList.update wid (nextAddr st) (worlds st) \<rparr>))"

definition validateMovement :: "position option \<Rightarrow> position option \<Rightarrow> js_number option \<Rightarrow> js_error + bool" where
  "validateMovement oldPos newPos maxSpeedArg =
     (let maxSpeed = (case maxSpeedArg of None \<Rightarrow> Num 15 | Some m \<Rightarrow> m) in
      case oldPos of
        None \<Rightarrow> Inr True
      | Some old \<Rightarrow>
          (case newPos of
             None \<Rightarrow> Inl TypeError
           | Some new \<Rightarrow>
               (let dx = js_sub (pos_x new) (pos_x old);
                    dy = js_sub (pos_y new) (pos_y old);
                    distance = js_sqrt (js_add (js_mul dx dx) (js_mul dy dy))
                in Inr (js_le distance maxSpeed))))"

definition checkRateLimit :: "socketId \<Rightarrow> int \<Rightarrow> state \<Rightarrow> bool \<times> state" where
  "checkRateLimit sock now st =
     (let lastUpdate = (case rateLimits st sock of None \<Rightarrow> 0 | Some t \<Rightarrow> t) in
      if now - lastUpdate < UPDATE_RATE_LIMIT then (False, st)
      else (True, st\<lparr> rateLimits := (rateLimits st)(sock \<mapsto> now) \<rparr>))"

section \<open>The connection callback and its handlers\<close>

definition spawn :: "userId \<Rightarrow> string option \<Rightarrow> int \<Rightarrow> player" where
  "spawn uid uname now =
     \<lparr> player_id = uid,
       username = (case truthy uname of Some n \<Rightarrow> n | None \<Rightarrow> ''User'' @ take 4 uid),
       position = \<lparr> pos_x = Num 500, pos_y = Num 500 \<rparr>,
       direction = ''down'',
       isMoving = False,
       avatar = ''standing'',
       timestamp = now \<rparr>"

definition on_connection :: "state \<Rightarrow> socketId \<Rightarrow> handshake_auth \<Rightarrow> int \<Rightarrow> state \<times> effect list" where
  "on_connection st sock auth now =
     (case truthy (auth_userId auth) of
        None \<Rightarrow> (st, [Disconnected sock])
      | Some uid \<Rightarrow>
     (case truthy (auth_worldId auth) of
        None \<Rightarrow> (st, [Disconnected sock])
      | Some wid \<Rightarrow>
          (let (a, st1) = getWorld wid st in
           if length (heap st1 a) \<ge> MAX_PLAYERS_PER_WORLD
           then (st1, [Emit sock (Error ''World is full''), Disconnected sock])
           else
             (let st2 = st1\<lparr> userSockets := (userSockets st1)(uid \<mapsto> sock) \<rparr>;
                  currentPlayers = map snd (heap st2 a);
                  p = spawn uid (auth_username auth) now;
                  st3 = st2\<lparr> heap := (heap st2)(a := AList.update uid p (heap st2 a)) \<rparr>;
                  st4 = st3\<lparr> sessions := AList.update sock
                                 \<lparr> userId = uid, worldId = wid, world = a \<rparr> (sessions st3) \<rparr>
              in (st4, Emit sock (WorldState currentPlayers)
                       # socket_to st4 sock wid (PlayerJoined p))))))"

definition player_move :: "state \<Rightarrow> socketId \<Rightarrow> session \<Rightarrow> movement_update \<Rightarrow> int \<Rightarrow> int \<Rightarrow> state \<times> effect list" where
  "player_move st sock c update now now2 =
     (let (ok, st1) = checkRateLimit sock now st in
      if \<not> ok then (st1, [])
      else
        (case map_of (heap st1 (world c)) (userId c) of
           None \<Rightarrow> (st1, [])
         | Some p \<Rightarrow>
             (case validateMovement (Some (position p)) (upd_position update) None of
                Inl e \<Rightarrow> (st1, [Raised e])
              | Inr valid \<Rightarrow>
                  if \<not> valid
                  then (st1, [Emit sock (PlayerPositionReset (position p))])
                  else
                    (case upd_position update of
                       None \<Rightarrow> (st1, [Raised TypeError])
                     | Some newPos \<Rightarrow>
                         (let p' = p\<lparr> position := newPos,
                                      direction := upd_direction update,
                                      isMoving := upd_isMoving update,
                                      timestamp := now2 \<rparr>;
                              st2 = st1\<lparr> heap := (heap st1)
                                       (world c := AList.update (userId c) p' (heap st1 (world c))) \<rparr>
                          in (st2, socket_to st2 sock (worldId c)
                                     (PlayerMoved (userId c) newPos (upd_direction update)
                                        (upd_isMoving update) now2)))))))"

definition chat_message :: "state \<Rightarrow> socketId \<Rightarrow> session \<Rightarrow> string \<Rightarrow> int \<Rightarrow> state \<times> effect list" where
  "chat_message st sock c msg now =
     (case map_of (heap st (world c)) (userId c) of
        None \<Rightarrow> (st, [])
      | Some p \<Rightarrow> (st, io_to st (worldId c) (ChatMessage (userId c) (username p) msg now)))"

definition player_interact :: "state \<Rightarrow> socketId \<Rightarrow> session \<Rightarrow> userId \<Rightarrow> state \<times> effect list" where
  "player_interact st sock c targetId =
     (case map_of (heap st (world c)) (userId c) of
        None \<Rightarrow> (st, [])
      | Some p \<Rightarrow>
          (case map_of (heap st (world c)) targetId of
             None \<Rightarrow> (st, [])
           | Some targetPlayer \<Rightarrow>
               (st, Emit sock (InteractionInitiated targetId (username targetPlayer))
                    # (case userSockets st targetId of
                         None \<Rightarrow> []
                       | Some targetSocketId \<Rightarrow>
                           io_to_socket st targetSocketId
                             (InteractionReceived (userId c) (username p))))))"

definition player_emote :: "state \<Rightarrow> socketId \<Rightarrow> session \<Rightarrow> string \<Rightarrow> int \<Rightarrow> state \<times> effect list" where
  "player_emote st sock c emote now =
     (case map_of (heap st (world c)) (userId c) of
        None \<Rightarrow> (st, [])
      | Some p \<Rightarrow> (st, socket_to st sock (worldId c) (PlayerEmoted (userId c) emote now)))"

text \<open>
  The \<^verbatim>\<open>disconnect\<close> handler.  Socket.io has taken the socket out of its rooms
  before the handler runs, so the closure is dropped from \<open>sessions\<close> first.
\<close>

definition on_disconnect :: "state \<Rightarrow> socketId \<Rightarrow> session \<Rightarrow> state \<times> effect list" where
  "on_disconnect st sock c =
     (let st0 = st\<lparr> sessions := AList.delete sock (sessions st) \<rparr>;
          st1 = st0\<lparr> heap := (heap st0)(world c := AList.delete (userId c) (heap st0 (world c))),
                     userSockets := (userSockets st0)(userId c := None),
                     rateLimits := (rateLimits st0)(sock := None) \<rparr>;
          out = socket_to st1 sock (worldId c) (PlayerLeft (userId c));
          st2 = (if length (heap st1 (world c)) = 0
                 then st1\<lparr> worlds := AList.delete (worldId c) (worlds st1) \<rparr>
                 else st1)
      in (st2, out))"

section \<open>The periodic cleanup\<close>

text \<open>
  The inner \<^verbatim>\<open>world.forEach\<close> visits the entries the map had when the sweep of
  this world began and deletes the stale ones by key; the outer
  \<^verbatim>\<open>worlds.forEach\<close> then drops the registry entry of a world left empty.
\<close>

fun sweep_players :: "int \<Rightarrow> world_map \<Rightarrow> world_map \<Rightarrow> world_map" where
  "sweep_players now [] w = w"
| "sweep_players now ((uid, p) # es) w =
     sweep_players now es (if now - timestamp p > 300000 then AList.delete uid w else w)"

fun sweep_worlds :: "int \<Rightarrow> (worldId \<times> nat) list \<Rightarrow> state \<Rightarrow> state" where
  "sweep_worlds now [] st = st"
| "sweep_worlds now ((wid, a) # ws) st =
     (let w' = sweep_players now (heap st a) (heap st a);
          st1 = st\<lparr> heap := (heap st)(a := w') \<rparr>;
          st2 = (if length w' = 0 then st1\<lparr> worlds := AList.delete wid (worlds st1) \<rparr> else st1)
      in sweep_worlds now ws st2)"

definition cleanup :: "state \<Rightarrow> int \<Rightarrow> state \<times> effect list" where
  "cleanup st now = (sweep_worlds now (worlds st) st, [])"

section \<open>The server as a transition system\<close>

text \<open>
  Socket.io gives every connection a fresh socket id, and an event of a socket
  runs the handler registered by that socket's connection callback; a socket
  that was refused has no handlers.
\<close>

definition step :: "state \<Rightarrow> event \<Rightarrow> state \<times> effect list" where
  "step st ev =
     (case ev of
        Connection sock auth now \<Rightarrow>
          (case map_of (sessions st) sock of
             None \<Rightarrow> on_connection st sock auth now
           | Some _ \<Rightarrow> (st, []))
      | PlayerMove sock update now now2 \<Rightarrow>
          (case map_of (sessions st) sock of
             None \<Rightarrow> (st, [])
           | Some c \<Rightarrow> player_move st sock c update now now2)
      | ChatEvent sock msg now \<Rightarrow>
          (case map_of (sessions st) sock of
             None \<Rightarrow> (st, [])
           | Some c \<Rightarrow> chat_message st sock c msg now)
      | PlayerInteract sock targetId \<Rightarrow>
          (case map_of (sessions st) sock of
             None \<Rightarrow> (st, [])
           | Some c \<Rightarrow> player_interact st sock c targetId)
      | PlayerEmote sock emote now \<Rightarrow>
          (case map_of (sessions st) sock of
             None \<Rightarrow> (st, [])
           | Some c \<Rightarrow> player_emote st sock c emote now)
      | Disconnect sock \<Rightarrow>
          (case map_of (sessions st) sock of
             None \<Rightarrow> (st, [])
           | Some c \<Rightarrow> on_disconnect st sock c)
      | Cleanup now \<Rightarrow> cleanup st now)"

fun run :: "state \<Rightarrow> event list \<Rightarrow> state" where
  "run st [] = st"
| "run st (ev # evs) = run (fst (step st ev)) evs"

section \<open>Specification-side notions\<close>

text \<open>
  The Euclidean distance of two positions with finite coordinates: the
  distance of the two points in the complex plane.
\<close>

definition euclid :: "position \<Rightarrow> position \<Rightarrow> real option" where
  "euclid p q =
     (case pos_x p of Num a \<Rightarrow>
        (case pos_y p of Num b \<Rightarrow>
           (case pos_x q of Num c \<Rightarrow>
              (case pos_y q of Num d \<Rightarrow> Some (dist (Complex a b) (Complex c d))
               | _ \<Rightarrow> None)
            | _ \<Rightarrow> None)
         | _ \<Rightarrow> None)
      | _ \<Rightarrow> None)"

definition euclid_le :: "position \<Rightarrow> position \<Rightarrow> real \<Rightarrow> bool" where
  "euclid_le p q m = (case euclid p q of Some D \<Rightarrow> D \<le> m | None \<Rightarrow> False)"

text \<open>The distance of two positions as the validator computes it.\<close>

definition computed_distance :: "position \<Rightarrow> position \<Rightarrow> js_number" where
  "computed_distance new old =
     (let dx = js_sub (pos_x new) (pos_x old);
          dy = js_sub (pos_y new) (pos_y old)
      in js_sqrt (js_add (js_mul dx dx) (js_mul dy dy)))"

text \<open>The world bounds; the server has none, the client's plane is 2000 by 2000.\<close>

definition within_bounds :: "real \<Rightarrow> real \<Rightarrow> position \<Rightarrow> bool" where
  "within_bounds W H p =
     (case pos_x p of Num a \<Rightarrow>
        (case pos_y p of Num b \<Rightarrow> 0 \<le> a \<and> a \<le> W \<and> 0 \<le> b \<and> b \<le> H | _ \<Rightarrow> False)
      | _ \<Rightarrow> False)"

section \<open>Example inputs\<close>

definition mk_auth :: "string \<Rightarrow> string \<Rightarrow> string \<Rightarrow> handshake_auth" where
  "mk_auth u w n = \<lparr> auth_userId = Some u, auth_worldId = Some w, auth_username = Some n \<rparr>"

definition mk_update :: "real \<Rightarrow> real \<Rightarrow> movement_update" where
  "mk_update a b = \<lparr> upd_position = Some \<lparr> pos_x = Num a, pos_y = Num b \<rparr>,
                      upd_direction = ''left'', upd_isMoving = True \<rparr>"

definition one_player :: state where
  "one_player = run init [Connection ''s1'' (mk_auth ''u1'' ''w'' ''Alice'') 1000]"

definition two_players :: state where
  "two_players = run init [Connection ''s1'' (mk_auth ''u1'' ''w'' ''Alice'') 1000,
                           Connection ''s2'' (mk_auth ''u2'' ''w'' ''Bob'') 2000]"

text \<open>Fifty players joining one world, which is then at capacity.\<close>

definition crowd_sock :: "nat \<Rightarrow> socketId" where
  "crowd_sock i = ''s'' @ replicate i CHR ''x''"

definition crowd_user :: "nat \<Rightarrow> userId" where
  "crowd_user i = ''u'' @ replicate i CHR ''x''"

definition crowd :: "nat \<Rightarrow> event list" where
  "crowd n = map (\<lambda>i. Connection (crowd_sock i) (mk_auth (crowd_user i) ''w'' ''P'') 0) [0..<n]"

definition full_world :: state where
  "full_world = run init (crowd 50)"

text \<open>A client that walks left in steps of 15 units, one step every 50 ms.\<close>

definition walk_left :: "nat \<Rightarrow> event list" where
  "walk_left n = map (\<lambda>i. PlayerMove ''s1'' (mk_update (500 - 15 * real (Suc i)) 500)
                            (1000000 + 50 * int i) (1000000 + 50 * int i)) [0..<n]"

text \<open>A third connection that presents the id of a player already in the world.\<close>

definition duplicate_join :: state where
  "duplicate_join = fst (step two_players (Connection ''s3'' (mk_auth ''u1'' ''w'' ''Alice'') 5000))"

text \<open>
  Two traces in which a closure outlives the registry entry of its world: in
  the first the same user id connects twice, in the second the player is
  reaped while its socket stays connected.
\<close>

definition stale_closure_trace :: "event list" where
  "stale_closure_trace =
     [Connection ''s1'' (mk_auth ''u'' ''w'' ''A'') 0,
      Connection ''s2'' (mk_auth ''u'' ''w'' ''A'') 10,
      Disconnect ''s1'',
      Connection ''s3'' (mk_auth ''v'' ''w'' ''B'') 20,
      Disconnect ''s2'']"

definition reaped_closure_trace :: "event list" where
  "reaped_closure_trace =
     [Connection ''s1'' (mk_auth ''u'' ''w'' ''A'') 0,
      Cleanup 300001,
      Connection ''s2'' (mk_auth ''v'' ''w'' ''B'') 300002,
      Disconnect ''s1'']"

section \<open>Invariants\<close>

text \<open>Every entry of every inner map is keyed by the id its player record carries.\<close>

definition ids_match :: "(nat \<Rightarrow> world_map) \<Rightarrow> bool" where
  "ids_match h = (\<forall>a. \<forall>(k, p) \<in> set (h a). player_id p = k)"

text \<open>
  The registry is well formed: world ids and addresses are not repeated, every
  registered address is allocated and holds a non-empty map, and an address
  captured by a closure is, if registered at all, registered under the
  closure's world id.
\<close>

definition registry_ok :: "state \<Rightarrow> bool" where
  "registry_ok st =
     (distinct (map fst (worlds st)) \<and> distinct (map snd (worlds st))
      \<and> (\<forall>(w, a) \<in> set (worlds st). a < nextAddr st \<and> heap st a \<noteq> [])
      \<and> (\<forall>(s, c) \<in> set (sessions st).
            world c < nextAddr st \<and> (\<forall>w. (w, world c) \<in> set (worlds st) \<longrightarrow> w = worldId c)))"

section \<open>Auxiliary facts\<close>

subsection \<open>Rounding\<close>

lemma rne_error: "\<bar>of_int (rne y) - y\<bar> \<le> 1 / 2"
  unfolding rne_def Let_def by (auto simp: abs_le_iff)

lemma rne_near: "\<bar>y - of_int z\<bar> < 1 / 2 \<Longrightarrow> rne y = z"
proof -
  assume h: "\<bar>y - of_int z\<bar> < 1 / 2"
  have e: "\<bar>of_int (rne y) - y\<bar> \<le> 1 / 2" by (rule rne_error)
  from h e have "\<bar>of_int (rne y) - (of_int z :: real)\<bar> < 1" by linarith
  then have "\<bar>rne y - z\<bar> < 1" by (metis of_int_diff of_int_abs of_int_less_1_iff)
  then show ?thesis by simp
qed

lemma rne_of_int [simp]: "rne (of_int z) = z"
  by (rule rne_near) simp

lemma rne_nonneg: "0 \<le> y \<Longrightarrow> 0 \<le> rne y"
  unfolding rne_def Let_def by (auto simp: le_floor_iff)

lemma quantum_pos: "0 < quantum x"
  by (simp add: quantum_def)

lemma round_to_grid_error_quantum: "\<bar>round_to_grid x - x\<bar> \<le> quantum x / 2"
proof (cases "x = 0")
  case True
  then show ?thesis using quantum_pos [of x] by (simp add: round_to_grid_def)
next
  case False
  let ?q = "quantum x"
  have q: "0 < ?q" by (rule quantum_pos)
  have "\<bar>round_to_grid x - x\<bar> = \<bar>?q * (of_int (rne (x / ?q)) - x / ?q)\<bar>"
    using False q by (simp add: round_to_grid_def algebra_simps)
  also have "\<dots> = ?q * \<bar>of_int (rne (x / ?q)) - x / ?q\<bar>"
    using q by (simp add: abs_mult)
  also have "\<dots> \<le> ?q * (1 / 2)"
    using q rne_error [of "x / ?q"] by (intro mult_left_mono) auto
  finally show ?thesis by simp
qed

lemma quantum_bound: "x \<noteq> 0 \<Longrightarrow> quantum x / 2 \<le> max (eps64 * \<bar>x\<bar>) eta64"
proof -
  assume nz: "x \<noteq> 0"
  then have ax: "0 < \<bar>x\<bar>" by simp
  show ?thesis
  proof (cases "\<lfloor>log 2 \<bar>x\<bar>\<rfloor> \<ge> - 1022")
    case True
    then have b: "binade x = \<lfloor>log 2 \<bar>x\<bar>\<rfloor>" by (simp add: binade_def)
    have "2 powr (of_int \<lfloor>log 2 \<bar>x\<bar>\<rfloor>) \<le> \<bar>x\<bar>"
      using floor_log_eq_powr_iff [of "\<bar>x\<bar>" 2 "\<lfloor>log 2 \<bar>x\<bar>\<rfloor>"] ax by simp
    then have "quantum x \<le> \<bar>x\<bar> * 2 powr (- 52)"
      by (simp add: quantum_def b powr_diff powr_minus divide_simps)
    then have "quantum x / 2 \<le> eps64 * \<bar>x\<bar>"
      by (simp add: eps64_def powr_neg_numeral)
    then show ?thesis by simp
  next
    case False
    then have b: "binade x = - 1022" by (simp add: binade_def)
    have "quantum x / 2 = eta64"
      by (simp add: quantum_def b eta64_def powr_neg_numeral)
    then show ?thesis by simp
  qed
qed

lemma round_to_grid_error: "\<bar>round_to_grid x - x\<bar> \<le> eps64 * \<bar>x\<bar> + eta64"
proof (cases "x = 0")
  case True
  then show ?thesis by (simp add: round_to_grid_def eta64_def)
next
  case False
  have "0 \<le> eps64 * \<bar>x\<bar>" "0 \<le> eta64" by (simp_all add: eps64_def eta64_def)
  then have "max (eps64 * \<bar>x\<bar>) eta64 \<le> eps64 * \<bar>x\<bar> + eta64" by simp
  with round_to_grid_error_quantum [of x] quantum_bound [OF False] show ?thesis by linarith
qed

lemma round_to_grid_nonneg: "0 \<le> x \<Longrightarrow> 0 \<le> round_to_grid x"
  using quantum_pos [of x] rne_nonneg [of "x / quantum x"]
  by (simp add: round_to_grid_def)

lemma binade_eq:
  assumes "0 < x" "2 powr (of_int k) \<le> x" "x < 2 powr (of_int k + 1)" "- 1022 \<le> k"
  shows "binade x = k" "binade (- x) = k"
proof -
  have "\<lfloor>log 2 x\<rfloor> = k"
    using floor_log_eq_powr_iff [of x 2 k] assms by simp
  then show "binade x = k" "binade (- x) = k"
    using assms by (simp_all add: binade_def)
qed

lemma round_to_grid_exact:
  assumes "x = of_int z * quantum x"
  shows "round_to_grid x = x"
proof (cases "x = 0")
  case True then show ?thesis by (simp add: round_to_grid_def)
next
  case False
  have "x / quantum x = of_int z"
    using assms quantum_pos [of x] by (metis nonzero_mult_div_cancel_right less_irrefl)
  then have "round_to_grid x = quantum x * of_int z" using False by (simp add: round_to_grid_def)
  with assms show ?thesis by (simp add: mult.commute)
qed

lemma round_to_grid_near:
  assumes "x \<noteq> 0" "\<bar>x / quantum x - of_int z\<bar> < 1 / 2"
  shows "round_to_grid x = quantum x * of_int z"
  using assms by (simp add: round_to_grid_def rne_near)

lemma huge64_split: "(2::real) ^ 53 * 2 powr 971 = huge64"
proof -
  have "(2::real) ^ 53 * 2 powr 971 = 2 powr 53 * 2 powr 971" by simp
  also have "\<dots> = 2 powr (53 + 971)" by (simp only: powr_add)
  also have "\<dots> = huge64" by (simp add: huge64_def)
  finally show ?thesis .
qed

lemma huge64_ge: "(2::real) ^ 100 \<le> huge64"
proof -
  have "(2::real) powr 100 \<le> 2 powr 1024" by (intro powr_mono) auto
  then show ?thesis by (simp add: huge64_def)
qed

lemma small_lt_huge64: "\<bar>y\<bar> \<le> 1000 \<Longrightarrow> \<bar>y\<bar> < huge64"
proof -
  assume "\<bar>y\<bar> \<le> 1000"
  moreover have "(1000 :: real) < 2 ^ 100" by simp
  ultimately show ?thesis using huge64_ge by linarith
qed

lemma round_to_grid_dyadic:
  assumes "\<bar>m\<bar> < 2 ^ 53" "- 1074 \<le> k"
  shows "round_to_grid (of_int m * 2 powr (of_int k)) = of_int m * 2 powr (of_int k)"
proof (cases "m = 0")
  case True then show ?thesis by (simp add: round_to_grid_def)
next
  case False
  let ?x = "of_int m * 2 powr (of_int k) :: real"
  have ax: "\<bar>?x\<bar> = of_int \<bar>m\<bar> * 2 powr (of_int k)" by (simp add: abs_mult)
  have nz: "?x \<noteq> 0" using False by simp
  have lt: "\<bar>?x\<bar> < 2 powr (of_int k + 53)"
  proof -
    have "(of_int \<bar>m\<bar> :: real) < 2 ^ 53" using assms(1) by (metis of_int_less_numeral_power_cancel_iff)
    then have "(of_int \<bar>m\<bar> :: real) * 2 powr (of_int k) < 2 ^ 53 * 2 powr (of_int k)"
      by (intro mult_strict_right_mono) auto
    also have "\<dots> = 2 powr (of_int k + 53)" by (simp add: powr_add)
    finally show ?thesis by (simp add: ax)
  qed
  have "log 2 \<bar>?x\<bar> < of_int k + 53"
    using lt nz by (subst log_less_iff) auto
  then have "\<lfloor>log 2 \<bar>?x\<bar>\<rfloor> < k + 53" by linarith
  then have b: "binade ?x - 52 \<le> k" using assms(2) by (simp add: binade_def)
  define e where "e = binade ?x"
  define j where "j = nat (k - (e - 52))"
  have j: "(of_int k :: real) = (of_int e - 52) + real j" using b by (simp add: j_def e_def)
  have "(2::real) powr (of_int k) = 2 powr (of_int e - 52) * 2 powr (real j)"
    by (simp only: j powr_add)
  also have "\<dots> = 2 ^ j * quantum ?x"
    by (simp add: quantum_def e_def powr_realpow)
  finally have "?x = of_int (m * 2 ^ j) * quantum ?x" by simp
  then show ?thesis by (rule round_to_grid_exact)
qed

lemma round64_dyadic:
  assumes "\<bar>m\<bar> < 2 ^ 53" "- 1074 \<le> k" "k \<le> 971"
  shows "round64 (of_int m * 2 powr (of_int k)) = Num (of_int m * 2 powr (of_int k))"
proof -
  let ?x = "of_int m * 2 powr (of_int k) :: real"
  have "(of_int \<bar>m\<bar> :: real) < 2 ^ 53" using assms(1) by (metis of_int_less_numeral_power_cancel_iff)
  moreover have "2 powr (of_int k) \<le> (2::real) powr 971" using assms(3) by (intro powr_mono) auto
  ultimately have "(of_int \<bar>m\<bar> :: real) * 2 powr (of_int k) < 2 ^ 53 * 2 powr 971"
    by (intro mult_less_le_imp_less) auto
  then have "(of_int \<bar>m\<bar> :: real) * 2 powr (of_int k) < huge64" by (simp only: huge64_split)
  then have "\<bar>?x\<bar> < huge64" by (simp add: abs_mult)
  then show ?thesis
    using round_to_grid_dyadic [OF assms(1,2)] by (simp add: round64_def Let_def abs_less_iff)
qed

lemma round64_int:
  assumes "\<bar>m\<bar> < 2 ^ 53"
  shows "round64 (of_int m) = Num (of_int m)"
  using round64_dyadic [OF assms, of 0] by simp

lemma round64_numeral [simp]:
  "numeral w < (2 :: int) ^ 53 \<Longrightarrow> round64 (numeral w) = Num (numeral w)"
  "numeral w < (2 :: int) ^ 53 \<Longrightarrow> round64 (- numeral w) = Num (- numeral w)"
  "round64 0 = Num 0" "round64 1 = Num 1"
  using round64_int [of "numeral w"] round64_int [of "- numeral w"] round64_int [of 0] round64_int [of 1]
  by simp_all

lemma round64_NumD: "round64 x = Num r \<Longrightarrow> r = round_to_grid x \<and> \<bar>r\<bar> < huge64"
  by (auto simp: round64_def Let_def split: if_splits)

lemma round64_NumI: "\<bar>round_to_grid x\<bar> < huge64 \<Longrightarrow> round64 x = Num (round_to_grid x)"
  by (auto simp: round64_def Let_def)

lemma round64_near:
  assumes "0 < x" "2 powr (of_int e) \<le> x" "x < 2 powr (of_int e + 1)" "- 1022 \<le> e"
    and "\<bar>x / 2 powr (of_int e - 52) - of_int z\<bar> < 1 / 2"
    and "y = 2 powr (of_int e - 52) * of_int z" "\<bar>y\<bar> < huge64"
  shows "round64 x = Num y"
proof -
  have b: "binade x = e" using assms(1-4) by (rule binade_eq)
  have q: "quantum x = 2 powr (of_int e - 52)" by (simp add: quantum_def b)
  have nz: "x \<noteq> 0" using assms(1) by simp
  have "round_to_grid x = quantum x * of_int z"
    using nz assms(5) unfolding q [symmetric] by (rule round_to_grid_near)
  then have "round_to_grid x = y" by (simp add: q assms(6))
  then show ?thesis using round64_NumI [of x] assms(7) by simp
qed

lemma eta64_le_tiny: "eta64 \<le> tiny"
proof -
  have "(2::real) powr (- 1075) \<le> 2 powr (- 100)" by (intro powr_mono) auto
  then show ?thesis by (simp add: eta64_def tiny_def powr_neg_numeral)
qed

lemma round64_error:
  assumes "round64 x = Num r"
  shows "\<bar>r - x\<bar> \<le> \<bar>x\<bar> / 2 ^ 53 + tiny"
  using round64_NumD [OF assms] round_to_grid_error [of x] eta64_le_tiny
  by (simp add: eps64_def)

lemma round64_nonneg: "round64 x = Num r \<Longrightarrow> 0 \<le> x \<Longrightarrow> 0 \<le> r"
  using round64_NumD round_to_grid_nonneg by blast

lemma round64_lower:
  assumes "round64 x = Num r"
  shows "\<bar>x\<bar> - \<bar>x\<bar> / 2 ^ 53 \<le> \<bar>r\<bar> + tiny"
  using round64_error [OF assms] by linarith

lemma round64_bounded:
  assumes "\<bar>x\<bar> \<le> B" "B \<le> 1000" "g = 1 + 1 / 2 ^ 53"
  obtains r where "round64 x = Num r" "\<bar>r\<bar> \<le> B * g + tiny" "0 \<le> x \<Longrightarrow> 0 \<le> r"
proof -
  let ?r = "round_to_grid x"
  have e: "\<bar>?r - x\<bar> \<le> \<bar>x\<bar> / 2 ^ 53 + tiny"
    using round_to_grid_error [of x] eta64_le_tiny by (simp add: eps64_def)
  have m: "\<bar>x\<bar> / 2 ^ 53 \<le> B / 2 ^ 53" using assms(1) by (simp add: divide_right_mono)
  from e m assms(1) have b: "\<bar>?r\<bar> \<le> B + B / 2 ^ 53 + tiny" by linarith
  have "B / 2 ^ 53 \<le> 1000 / 2 ^ 53" using assms(2) by (simp add: divide_right_mono)
  moreover have "(1000 :: real) / 2 ^ 53 \<le> 1" "tiny \<le> 1" by (simp_all add: tiny_def)
  ultimately have "\<bar>?r\<bar> \<le> 1002" using b assms(2) by linarith
  moreover have "(1002 :: real) < 2 ^ 100" by simp
  ultimately have "\<bar>?r\<bar> < huge64" using huge64_ge by linarith
  then have "round64 x = Num ?r" by (rule round64_NumI)
  moreover have "\<bar>?r\<bar> \<le> B * g + tiny" using b by (simp add: assms(3) algebra_simps)
  ultimately show ?thesis using round_to_grid_nonneg [of x] that by blast
qed

lemma round64_just_above_225: "round64 (225 + 1 / 2 ^ 60) = Num 225"
proof (rule round64_near [where e = 7 and z = "225 * 2 ^ 45"])
  show "(0::real) < 225 + 1 / 2 ^ 60" by simp
  show "2 powr (of_int 7) \<le> (225 + 1 / 2 ^ 60 :: real)" by simp
  show "(225 + 1 / 2 ^ 60 :: real) < 2 powr (of_int 7 + 1)" by simp
  show "- 1022 \<le> (7 :: int)" by simp
  show "\<bar>(225 + 1 / 2 ^ 60) / 2 powr (of_int 7 - 52) - of_int (225 * 2 ^ 45)\<bar> < (1 / 2 :: real)"
    by (simp add: powr_neg_numeral)
  show "(225 :: real) = 2 powr (of_int 7 - 52) * of_int (225 * 2 ^ 45)"
    by (simp add: powr_neg_numeral)
  show "\<bar>225 :: real\<bar> < huge64" by (rule small_lt_huge64) simp
qed

lemma round64_two_powers:
  "round64 (1 / 2 ^ 30) = Num (1 / 2 ^ 30)" "round64 (1 / 2 ^ 60) = Num (1 / 2 ^ 60)"
  using round64_dyadic [of 1 "- 30"] round64_dyadic [of 1 "- 60"]
  by (simp_all add: powr_neg_numeral)

subsection \<open>The operators\<close>

lemma js_sqrt_NumD:
  "js_sqrt v = Num r \<Longrightarrow> \<exists>s. v = Num s \<and> 0 \<le> s \<and> round64 (sqrt s) = Num r"
  by (cases v) (auto split: if_splits)

lemma js_add_NumD:
  "js_add v w = Num s \<Longrightarrow> \<exists>x y. v = Num x \<and> w = Num y \<and> round64 (x + y) = Num s"
  by (cases v; cases w) auto

lemma js_mul_NumD:
  "js_mul v w = Num s \<Longrightarrow> \<exists>x y. v = Num x \<and> w = Num y \<and> round64 (x * y) = Num s"
  by (cases v; cases w) (auto split: if_splits)

lemma js_sub_NumD:
  "js_sub v w = Num s \<Longrightarrow> \<exists>x y. v = Num x \<and> w = Num y \<and> round64 (x - y) = Num s"
  by (cases v; cases w) (auto simp: js_sub_def)

lemma js_sqrt_not_NegInfinity: "js_sqrt v \<noteq> NegInfinity"
proof (cases v)
  case (Num x)
  have "round64 (sqrt x) \<noteq> NegInfinity" if "0 \<le> x"
  proof -
    have "0 \<le> round_to_grid (sqrt x)" using that by (intro round_to_grid_nonneg) simp
    moreover have "0 < huge64" by (simp add: huge64_def)
    ultimately show ?thesis by (auto simp: round64_def Let_def)
  qed
  then show ?thesis using Num by auto
qed auto

lemma js_le_sqrt_NumD: "js_le (js_sqrt v) (Num m) \<Longrightarrow> \<exists>r. js_sqrt v = Num r \<and> r \<le> m"
  using js_sqrt_not_NegInfinity [of v] by (cases "js_sqrt v") auto

subsection \<open>The computed distance\<close>

lemma sqrt_square_abs: "sqrt (x * x) = \<bar>x\<bar>"
  by (metis power2_eq_square real_sqrt_abs)

lemma validateMovement_computed:
  "validateMovement (Some old) (Some new) ms
     = Inr (js_le (computed_distance new old) (case ms of None \<Rightarrow> Num 15 | Some m \<Rightarrow> m))"
  by (simp add: validateMovement_def computed_distance_def Let_def)

lemma computed_distance_axis:
  assumes "c - a = of_int k" "\<bar>k\<bar> < 2 ^ 26"
  shows "computed_distance \<lparr> pos_x = Num c, pos_y = Num b \<rparr> \<lparr> pos_x = Num a, pos_y = Num b \<rparr>
           = Num \<bar>c - a\<bar>"
proof -
  have k53: "\<bar>k\<bar> < 2 ^ 53" using assms(2) by simp
  have "\<bar>k\<bar> * \<bar>k\<bar> < 2 ^ 26 * 2 ^ 26"
    using assms(2) by (intro mult_strict_mono) auto
  then have kk: "\<bar>k * k\<bar> < 2 ^ 53" by (simp add: abs_mult)
  have dx: "js_sub (Num c) (Num a) = Num (of_int k)"
    using round64_int [OF k53] by (simp add: js_sub_def assms(1))
  have dy: "js_sub (Num b) (Num b) = Num 0" by (simp add: js_sub_def)
  have sq: "js_mul (Num (of_int k)) (Num (of_int k)) = Num (of_int (k * k))"
    using round64_int [OF kk] by simp
  have sum: "js_add (Num (of_int (k * k))) (Num 0) = Num (of_int (k * k))"
    using round64_int [OF kk] by simp
  have "sqrt (of_int (k * k)) = (of_int \<bar>k\<bar> :: real)"
    using sqrt_square_abs [of "of_int k"] by simp
  then have rt: "js_sqrt (Num (of_int (k * k))) = Num (of_int \<bar>k\<bar>)"
    using round64_int [of "\<bar>k\<bar>"] k53 by simp
  have dy2: "js_mul (Num 0) (Num 0) = Num 0" by simp
  have "computed_distance \<lparr> pos_x = Num c, pos_y = Num b \<rparr> \<lparr> pos_x = Num a, pos_y = Num b \<rparr>
          = Num (of_int \<bar>k\<bar>)"
    by (simp only: computed_distance_def Let_def position.select_convs dx dy sq dy2 sum rt)
  then show ?thesis by (simp add: assms(1))
qed

lemma validateMovement_axis:
  assumes "c - a = of_int k" "\<bar>k\<bar> < 2 ^ 26"
  shows "validateMovement (Some \<lparr> pos_x = Num a, pos_y = Num b \<rparr>)
           (Some \<lparr> pos_x = Num c, pos_y = Num b \<rparr>) None = Inr (\<bar>c - a\<bar> \<le> 15)"
  by (simp add: validateMovement_computed computed_distance_axis [OF assms])

lemma computed_distance_le_D:
  assumes "js_le (computed_distance new old) (Num m)"
  shows "\<exists>a b c d dx dy al be s r.
           old = \<lparr> pos_x = Num a, pos_y = Num b \<rparr> \<and> new = \<lparr> pos_x = Num c, pos_y = Num d \<rparr>
         \<and> round64 (c - a) = Num dx \<and> round64 (d - b) = Num dy
         \<and> round64 (dx * dx) = Num al \<and> round64 (dy * dy) = Num be
         \<and> round64 (al + be) = Num s \<and> 0 \<le> s \<and> round64 (sqrt s) = Num r \<and> r \<le> m"
proof -
  let ?vx = "js_sub (pos_x new) (pos_x old)" and ?vy = "js_sub (pos_y new) (pos_y old)"
  from assms obtain r where r: "js_sqrt (js_add (js_mul ?vx ?vx) (js_mul ?vy ?vy)) = Num r" "r \<le> m"
    unfolding computed_distance_def Let_def by (blast dest: js_le_sqrt_NumD)
  from js_sqrt_NumD [OF r(1)] obtain s where
    s: "js_add (js_mul ?vx ?vx) (js_mul ?vy ?vy) = Num s" "0 \<le> s" "round64 (sqrt s) = Num r" by blast
  from js_add_NumD [OF s(1)] obtain al be where
    ab: "js_mul ?vx ?vx = Num al" "js_mul ?vy ?vy = Num be" "round64 (al + be) = Num s" by blast
  from js_mul_NumD [OF ab(1)] obtain dx where dx: "?vx = Num dx" "round64 (dx * dx) = Num al" by auto
  from js_mul_NumD [OF ab(2)] obtain dy where dy: "?vy = Num dy" "round64 (dy * dy) = Num be" by auto
  from js_sub_NumD [OF dx(1)] obtain c a where
    ca: "pos_x new = Num c" "pos_x old = Num a" "round64 (c - a) = Num dx" by blast
  from js_sub_NumD [OF dy(1)] obtain d b where
    db: "pos_y new = Num d" "pos_y old = Num b" "round64 (d - b) = Num dy" by blast
  have "old = \<lparr> pos_x = Num a, pos_y = Num b \<rparr>" "new = \<lparr> pos_x = Num c, pos_y = Num d \<rparr>"
    using ca db by simp_all
  then show ?thesis using ca db dx dy ab s r by blast
qed

subsection \<open>The computed distance against the exact one\<close>

lemma shrink_bound:
  fixes z B C :: real
  assumes "z - z / 2 ^ 53 \<le> B" "B * 2 ^ 53 \<le> C * (2 ^ 53 - 1)"
  shows "z \<le> C"
proof -
  have "z * (2 ^ 53 - 1) = (z - z / 2 ^ 53) * 2 ^ 53" by (simp add: algebra_simps)
  also have "\<dots> \<le> B * 2 ^ 53" using assms(1) by (intro mult_right_mono) auto
  also have "\<dots> \<le> C * (2 ^ 53 - 1)" by (rule assms(2))
  finally show ?thesis by simp
qed

lemma inverse_step_sqrt: "(15 + tiny) * 2 ^ 53 \<le> (15 + 1 / 2 ^ 48) * (2 ^ 53 - 1)" by (simp add: tiny_def)

lemma inverse_step_sum: "(225 + 1 / 2 ^ 43 + tiny) * 2 ^ 53 \<le> (225 + 1 / 2 ^ 42) * (2 ^ 53 - 1)" by (simp add: tiny_def)

lemma inverse_step_squares: "(225 + 1 / 2 ^ 42 + 2 * tiny) * 2 ^ 53 \<le> (225 + 1 / 2 ^ 41) * (2 ^ 53 - 1)" by (simp add: tiny_def)

lemma inverse_step_distance: "(15 + 1 / 2 ^ 45 :: real) * 2 ^ 53 \<le> (15 + 1 / 2 ^ 40) * (2 ^ 53 - 1)" by (simp add: tiny_def)

lemma abs_le_16:
  fixes z :: real
  assumes "z * z \<le> 256"
  shows "\<bar>z\<bar> \<le> 16"
proof (rule ccontr)
  assume "\<not> \<bar>z\<bar> \<le> 16"
  then have "16 < \<bar>z\<bar>" by simp
  then have "16 * 16 < \<bar>z\<bar> * \<bar>z\<bar>" by (intro mult_strict_mono) auto
  then show False using assms by (simp add: abs_mult_self_eq)
qed

lemma accepted_distance_bound:
  assumes "round64 X = Num dx" "round64 Y = Num dy"
    and "round64 (dx * dx) = Num al" "round64 (dy * dy) = Num be"
    and "round64 (al + be) = Num s" "0 \<le> s" "round64 (sqrt s) = Num r" "r \<le> 15"
  shows "sqrt (X * X + Y * Y) \<le> 15 + 1 / 2 ^ 40"
proof -
  have al0: "0 \<le> al" using round64_nonneg [OF assms(3)] by simp
  have be0: "0 \<le> be" using round64_nonneg [OF assms(4)] by simp
  have r0: "0 \<le> r" using round64_nonneg [OF assms(7)] assms(6) by simp
  \<comment> \<open>the square root\<close>
  have "sqrt s - sqrt s / 2 ^ 53 \<le> r + tiny"
    using round64_lower [OF assms(7)] r0 by simp
  then have "sqrt s - sqrt s / 2 ^ 53 \<le> 15 + tiny" using assms(8) by simp
  then have y: "sqrt s \<le> 15 + 1 / 2 ^ 48" by (rule shrink_bound [OF _ inverse_step_sqrt])
  have "s = sqrt s * sqrt s" using assms(6) by simp
  also have "\<dots> \<le> (15 + 1 / 2 ^ 48) * (15 + 1 / 2 ^ 48)"
    using y assms(6) by (intro mult_mono) auto
  also have "\<dots> \<le> 225 + 1 / 2 ^ 43" by simp
  finally have s: "s \<le> 225 + 1 / 2 ^ 43" .
  \<comment> \<open>the sum\<close>
  have "(al + be) - (al + be) / 2 ^ 53 \<le> s + tiny"
    using round64_lower [OF assms(5)] al0 be0 assms(6) by simp
  then have "(al + be) - (al + be) / 2 ^ 53 \<le> 225 + 1 / 2 ^ 43 + tiny" using s by simp
  then have sum: "al + be \<le> 225 + 1 / 2 ^ 42" by (rule shrink_bound [OF _ inverse_step_sum])
  \<comment> \<open>the squares\<close>
  have "dx * dx - dx * dx / 2 ^ 53 \<le> al + tiny"
    using round64_lower [OF assms(3)] al0 by (simp add: abs_mult_self_eq)
  moreover have "dy * dy - dy * dy / 2 ^ 53 \<le> be + tiny"
    using round64_lower [OF assms(4)] be0 by (simp add: abs_mult_self_eq)
  ultimately have "(dx * dx + dy * dy) - (dx * dx + dy * dy) / 2 ^ 53 \<le> 225 + 1 / 2 ^ 42 + 2 * tiny"
    using sum by (simp add: add_divide_distrib)
  then have sq: "dx * dx + dy * dy \<le> 225 + 1 / 2 ^ 41" by (rule shrink_bound [OF _ inverse_step_squares])
  have c256: "225 + 1 / 2 ^ 41 \<le> (256 :: real)" by simp
  have q256: "dx * dx \<le> 256" "dy * dy \<le> 256"
    using sq c256 zero_le_square [of dx] zero_le_square [of dy] by linarith+
  have d16: "\<bar>dx\<bar> \<le> 16" "\<bar>dy\<bar> \<le> 16"
    using q256 by (auto intro: abs_le_16)
  \<comment> \<open>the differences\<close>
  define w :: real where "w = 1 - 1 / 2 ^ 53"
  have w: "0 < w" by (simp add: w_def)
  have bx: "\<bar>X\<bar> * w \<le> \<bar>dx\<bar> + tiny"
    using round64_lower [OF assms(1)] by (simp add: w_def algebra_simps)
  have by': "\<bar>Y\<bar> * w \<le> \<bar>dy\<bar> + tiny"
    using round64_lower [OF assms(2)] by (simp add: w_def algebra_simps)
  have t0: "0 \<le> tiny" "tiny \<le> 1" by (simp_all add: tiny_def)
  have sqb: "(\<bar>z\<bar> * w) * (\<bar>z\<bar> * w) \<le> dz * dz + 33 * tiny"
    if "\<bar>z\<bar> * w \<le> \<bar>dz\<bar> + tiny" "\<bar>dz\<bar> \<le> 16" for z dz :: real
  proof -
    have "(\<bar>z\<bar> * w) * (\<bar>z\<bar> * w) \<le> (\<bar>dz\<bar> + tiny) * (\<bar>dz\<bar> + tiny)"
      using that(1) w t0 by (intro mult_mono) auto
    also have "\<dots> = dz * dz + tiny * (2 * \<bar>dz\<bar> + tiny)"
      by (simp add: algebra_simps abs_mult_self_eq)
    also have "\<dots> \<le> dz * dz + tiny * 33"
      using that(2) t0 by (intro add_left_mono mult_left_mono) auto
    finally show ?thesis by (simp add: mult.commute)
  qed
  define D where "D = sqrt (X * X + Y * Y)"
  define c where "c = (15 + 1 / 2 ^ 45 :: real)"
  have D0: "0 \<le> D" by (simp add: D_def)
  have c0: "0 \<le> c" by (simp add: c_def)
  have DD: "D * D = X * X + Y * Y" by (simp add: D_def)
  have num: "225 + 1 / 2 ^ 41 + 66 * tiny \<le> c * c" by (simp add: c_def tiny_def)
  have "(D * w) * (D * w) = (D * D) * (w * w)" by (simp only: ac_simps)
  also have "\<dots> = X * X * (w * w) + Y * Y * (w * w)" by (simp only: DD distrib_right)
  also have "\<dots> = \<bar>X\<bar> * \<bar>X\<bar> * (w * w) + \<bar>Y\<bar> * \<bar>Y\<bar> * (w * w)"
    by (simp only: abs_mult_self_eq)
  also have "\<dots> = (\<bar>X\<bar> * w) * (\<bar>X\<bar> * w) + (\<bar>Y\<bar> * w) * (\<bar>Y\<bar> * w)"
    by (simp only: ac_simps)
  also have "\<dots> \<le> (dx * dx + 33 * tiny) + (dy * dy + 33 * tiny)"
    by (intro add_mono sqb bx by' d16)
  also have "\<dots> = dx * dx + dy * dy + 66 * tiny" by simp
  also have "\<dots> \<le> 225 + 1 / 2 ^ 41 + 66 * tiny" using sq by (simp only: add_right_mono)
  also have "\<dots> \<le> c * c" by (rule num)
  finally have "(D * w)\<^sup>2 \<le> c\<^sup>2" by (simp only: power2_eq_square)
  then have "D * w \<le> c" using c0 by (rule power2_le_imp_le)
  then have "D - D / 2 ^ 53 \<le> c" by (simp add: w_def algebra_simps)
  then have "sqrt (X * X + Y * Y) - sqrt (X * X + Y * Y) / 2 ^ 53 \<le> 15 + 1 / 2 ^ 45"
    by (simp only: D_def c_def)
  then show ?thesis by (rule shrink_bound [OF _ inverse_step_distance])
qed

lemma forward_step_squares: "(15 - 1 / 2 ^ 40) * (15 - 1 / 2 ^ 40) * ((1 + 1 / 2 ^ 53) * (1 + 1 / 2 ^ 53)) + 122 * tiny
             \<le> 225 - 3 / 2 ^ 37"
  by (simp add: tiny_def)

lemma forward_step_sum: "(225 - 3 / 2 ^ 37) * (1 + 1 / 2 ^ 53) + 2 * tiny \<le> 225 - 3 / 2 ^ 37 + 1 / 2 ^ 44"
  by (simp add: tiny_def)

lemma forward_step_sqrt: "(225 - 3 / 2 ^ 37 + 1 / 2 ^ 44) * (1 + 1 / 2 ^ 53) + tiny
             \<le> (15 - 1 / 2 ^ 41) * (15 - 1 / 2 ^ 41)"
  by (simp add: tiny_def)

lemma forward_step_result: "(15 - 1 / 2 ^ 41) * (1 + 1 / 2 ^ 53) + tiny \<le> 15"
  by (simp add: tiny_def)

lemma abs_le_sqrt_sum: "\<bar>X\<bar> \<le> sqrt (X * X + Y * Y)" "\<bar>Y\<bar> \<le> sqrt (X * X + Y * Y)"
proof -
  have "sqrt (X * X) \<le> sqrt (X * X + Y * Y)" by (rule real_sqrt_le_mono) simp
  then show "\<bar>X\<bar> \<le> sqrt (X * X + Y * Y)" by (simp only: sqrt_square_abs)
  have "sqrt (Y * Y) \<le> sqrt (X * X + Y * Y)" by (rule real_sqrt_le_mono) simp
  then show "\<bar>Y\<bar> \<le> sqrt (X * X + Y * Y)" by (simp only: sqrt_square_abs)
qed

lemma square_of_rounded:
  fixes z dz g :: real
  assumes "\<bar>dz\<bar> \<le> \<bar>z\<bar> * g + tiny" "\<bar>z\<bar> \<le> 15" "g = 1 + 1 / 2 ^ 53"
  shows "dz * dz \<le> z * z * (g * g) + 61 * tiny"
proof -
  have t0: "0 \<le> tiny" "tiny \<le> 1" by (simp_all add: tiny_def)
  have g0: "0 \<le> g" by (simp add: assms(3))
  have zg: "\<bar>z\<bar> * g \<le> 30"
  proof -
    have "\<bar>z\<bar> * g \<le> 15 * 2" using assms(2) by (intro mult_mono) (simp_all add: assms(3))
    then show ?thesis by simp
  qed
  have "dz * dz = \<bar>dz\<bar> * \<bar>dz\<bar>" by (simp only: abs_mult_self_eq)
  also have "\<dots> \<le> (\<bar>z\<bar> * g + tiny) * (\<bar>z\<bar> * g + tiny)"
    using assms(1) by (intro mult_mono) auto
  also have "\<dots> = \<bar>z\<bar> * \<bar>z\<bar> * (g * g) + tiny * (2 * (\<bar>z\<bar> * g) + tiny)"
    by (simp only: distrib_left distrib_right ac_simps)
  also have "\<dots> \<le> \<bar>z\<bar> * \<bar>z\<bar> * (g * g) + tiny * 61"
    using zg t0 by (intro add_left_mono mult_left_mono) auto
  finally show ?thesis by (simp only: abs_mult_self_eq mult.commute [of tiny 61])
qed

lemma close_move_rounds:
  assumes "sqrt (X * X + Y * Y) \<le> 15 - 1 / 2 ^ 40"
  shows "\<exists>dx dy al be s r.
           round64 X = Num dx \<and> round64 Y = Num dy
         \<and> round64 (dx * dx) = Num al \<and> round64 (dy * dy) = Num be
         \<and> round64 (al + be) = Num s \<and> 0 \<le> s \<and> round64 (sqrt s) = Num r \<and> r \<le> 15"
proof -
  define g :: real where "g = 1 + 1 / 2 ^ 53"
  define D where "D = sqrt (X * X + Y * Y)"
  define c where "c = (15 - 1 / 2 ^ 40 :: real)"
  have g: "g = 1 + 1 / 2 ^ 53" by (rule g_def)
  have g0: "0 \<le> g" by (simp add: g_def)
  have D0: "0 \<le> D" by (simp add: D_def)
  have Dc: "D \<le> c" using assms by (simp only: D_def c_def)
  have c15: "c \<le> 15" by (simp add: c_def)
  have DD: "D * D = X * X + Y * Y" by (simp add: D_def)
  have "\<bar>X\<bar> \<le> D" "\<bar>Y\<bar> \<le> D"
    unfolding D_def by (rule abs_le_sqrt_sum)+
  then have X15: "\<bar>X\<bar> \<le> 15" and Y15: "\<bar>Y\<bar> \<le> 15"
    using Dc c15 by linarith+
  \<comment> \<open>the differences\<close>
  have X1000: "\<bar>X\<bar> \<le> 1000" and Y1000: "\<bar>Y\<bar> \<le> 1000" using X15 Y15 by linarith+
  obtain dx where dx: "round64 X = Num dx" "\<bar>dx\<bar> \<le> \<bar>X\<bar> * g + tiny"
    using round64_bounded [OF order_refl X1000 g] by blast
  obtain dy where dy: "round64 Y = Num dy" "\<bar>dy\<bar> \<le> \<bar>Y\<bar> * g + tiny"
    using round64_bounded [OF order_refl Y1000 g] by blast
  have sx: "dx * dx \<le> X * X * (g * g) + 61 * tiny" by (rule square_of_rounded [OF dx(2) X15 g])
  have sy: "dy * dy \<le> Y * Y * (g * g) + 61 * tiny" by (rule square_of_rounded [OF dy(2) Y15 g])
  have "D * D \<le> c * c" using D0 Dc by (intro mult_mono) auto
  then have "D * D * (g * g) \<le> c * c * (g * g)" by (intro mult_right_mono) (simp_all add: g_def)
  moreover have "c * c * (g * g) + 122 * tiny \<le> 225 - 3 / 2 ^ 37"
    unfolding c_def g_def by (rule forward_step_squares)
  moreover have "D * D * (g * g) = X * X * (g * g) + Y * Y * (g * g)"
    by (simp only: DD distrib_right)
  then have "dx * dx + dy * dy \<le> D * D * (g * g) + 122 * tiny"
    using sx sy by linarith
  ultimately have sq: "dx * dx + dy * dy \<le> 225 - 3 / 2 ^ 37" by linarith
  have sq0: "0 \<le> dx * dx" "0 \<le> dy * dy" by simp_all
  \<comment> \<open>the squares\<close>
  define k where "k = (225 - 3 / 2 ^ 37 :: real)"
  have kk: "k \<le> 1000" by (simp add: k_def)
  have sqk: "dx * dx + dy * dy \<le> k" using sq by (simp only: k_def)
  have ax: "\<bar>dx * dx\<bar> \<le> dx * dx" "dx * dx \<le> 1000"
    using sq0 sqk kk by (simp, linarith)
  have ay: "\<bar>dy * dy\<bar> \<le> dy * dy" "dy * dy \<le> 1000"
    using sq0 sqk kk by (simp, linarith)
  obtain al where al: "round64 (dx * dx) = Num al" "0 \<le> al" "al \<le> dx * dx * g + tiny"
    using round64_bounded [OF ax g] sq0(1) by (metis abs_of_nonneg)
  obtain be where be: "round64 (dy * dy) = Num be" "0 \<le> be" "be \<le> dy * dy * g + tiny"
    using round64_bounded [OF ay g] sq0(2) by (metis abs_of_nonneg)
  have "(dx * dx + dy * dy) * g \<le> k * g" using sqk g0 by (rule mult_right_mono)
  moreover have "(dx * dx + dy * dy) * g = dx * dx * g + dy * dy * g" by (simp only: distrib_right)
  ultimately have "al + be \<le> k * g + 2 * tiny" using al(3) be(3) by linarith
  moreover have "k * g + 2 * tiny \<le> 225 - 3 / 2 ^ 37 + 1 / 2 ^ 44"
    unfolding k_def g_def by (rule forward_step_sum)
  ultimately have sum: "al + be \<le> 225 - 3 / 2 ^ 37 + 1 / 2 ^ 44" by linarith
  \<comment> \<open>the sum\<close>
  define k' where "k' = (225 - 3 / 2 ^ 37 + 1 / 2 ^ 44 :: real)"
  have kk': "k' \<le> 1000" by (simp add: k'_def)
  have sumk: "al + be \<le> k'" using sum by (simp only: k'_def)
  have ab0: "0 \<le> al + be" using al(2) be(2) by simp
  have asum: "\<bar>al + be\<bar> \<le> k'" using ab0 sumk by simp
  obtain s where s: "round64 (al + be) = Num s" "0 \<le> s" "s \<le> k' * g + tiny"
    using round64_bounded [OF asum kk' g] ab0 by (metis abs_of_nonneg)
  define T where "T = (15 - 1 / 2 ^ 41 :: real)"
  have T0: "0 \<le> T" by (simp add: T_def)
  have "k' * g + tiny \<le> T * T" unfolding k'_def T_def g_def by (rule forward_step_sqrt)
  then have sT: "s \<le> T * T" using s(3) by linarith
  \<comment> \<open>the square root\<close>
  have "sqrt s \<le> sqrt (T * T)" using sT by (rule real_sqrt_le_mono)
  then have rt: "sqrt s \<le> T" using T0 by (simp only: sqrt_square_abs abs_of_nonneg)
  have rt0: "0 \<le> sqrt s" using s(2) by simp
  have T1000: "T \<le> 1000" by (simp add: T_def)
  have art: "\<bar>sqrt s\<bar> \<le> T" using rt rt0 by simp
  obtain r where r: "round64 (sqrt s) = Num r" "r \<le> T * g + tiny"
    using round64_bounded [OF art T1000 g] by (metis abs_le_D1)
  have "T * g + tiny \<le> 15" unfolding T_def g_def by (rule forward_step_result)
  then have "r \<le> 15" using r(2) by linarith
  then show ?thesis using dx(1) dy(1) al(1) be(1) s(1,2) r(1) by blast
qed

lemma euclid_Num:
  "euclid \<lparr> pos_x = Num c, pos_y = Num d \<rparr> \<lparr> pos_x = Num a, pos_y = Num b \<rparr>
     = Some (sqrt ((c - a) * (c - a) + (d - b) * (d - b)))"
  by (simp add: euclid_def dist_complex_def cmod_def power2_eq_square)

lemma euclid_leD:
  assumes "euclid_le p q m"
  shows "\<exists>a b c d. p = \<lparr> pos_x = Num c, pos_y = Num d \<rparr> \<and> q = \<lparr> pos_x = Num a, pos_y = Num b \<rparr>
           \<and> sqrt ((c - a) * (c - a) + (d - b) * (d - b)) \<le> m"
proof -
  from assms obtain a b c d where
    f: "pos_x p = Num c" "pos_y p = Num d" "pos_x q = Num a" "pos_y q = Num b"
    by (auto simp: euclid_le_def euclid_def split: js_number.splits option.splits)
  then have pq: "p = \<lparr> pos_x = Num c, pos_y = Num d \<rparr>" "q = \<lparr> pos_x = Num a, pos_y = Num b \<rparr>"
    by simp_all
  with assms have "sqrt ((c - a) * (c - a) + (d - b) * (d - b)) \<le> m"
    by (simp add: euclid_le_def euclid_Num)
  with pq show ?thesis by blast
qed

lemma computed_distance_Num:
  assumes "round64 (c - a) = Num dx" "round64 (d - b) = Num dy"
    and "round64 (dx * dx) = Num al" "round64 (dy * dy) = Num be"
    and "round64 (al + be) = Num s" "0 \<le> s" "round64 (sqrt s) = Num r"
  shows "computed_distance \<lparr> pos_x = Num c, pos_y = Num d \<rparr> \<lparr> pos_x = Num a, pos_y = Num b \<rparr> = Num r"
  using assms by (simp add: computed_distance_def js_sub_def Let_def)

text \<open>
  With the default maximum speed, the computed test and the exact Euclidean
  test differ at most within \<open>2 ^ -40\<close> of the threshold.
\<close>

lemma accepted_implies_euclid:
  assumes "js_le (computed_distance new old) (Num 15)"
  shows "euclid_le new old (15 + 1 / 2 ^ 40)"
proof -
  from computed_distance_le_D [OF assms] obtain a b c d dx dy al be s r where
    h: "old = \<lparr> pos_x = Num a, pos_y = Num b \<rparr>" "new = \<lparr> pos_x = Num c, pos_y = Num d \<rparr>"
       "round64 (c - a) = Num dx" "round64 (d - b) = Num dy"
       "round64 (dx * dx) = Num al" "round64 (dy * dy) = Num be"
       "round64 (al + be) = Num s" "0 \<le> s" "round64 (sqrt s) = Num r" "r \<le> 15"
    by blast
  from accepted_distance_bound [OF h(3-10)]
  show ?thesis by (simp add: euclid_le_def h(1,2) euclid_Num)
qed

lemma euclid_implies_accepted:
  assumes "euclid_le new old (15 - 1 / 2 ^ 40)"
  shows "js_le (computed_distance new old) (Num 15)"
proof -
  from euclid_leD [OF assms] obtain a b c d where
    h: "new = \<lparr> pos_x = Num c, pos_y = Num d \<rparr>" "old = \<lparr> pos_x = Num a, pos_y = Num b \<rparr>"
       "sqrt ((c - a) * (c - a) + (d - b) * (d - b)) \<le> 15 - 1 / 2 ^ 40"
    by blast
  from close_move_rounds [OF h(3)] obtain dx dy al be s r where
    r: "round64 (c - a) = Num dx" "round64 (d - b) = Num dy"
       "round64 (dx * dx) = Num al" "round64 (dy * dy) = Num be"
       "round64 (al + be) = Num s" "0 \<le> s" "round64 (sqrt s) = Num r" "r \<le> 15"
    by blast
  from computed_distance_Num [OF r(1-7)] r(8) show ?thesis by (simp add: h(1,2))
qed

text \<open>
  The move from \<open>(0, 0)\<close> to \<open>(15, 2 ^ -30)\<close>: the sum \<open>225 + 2 ^ -60\<close> rounds to
  \<open>225\<close>, whose square root is \<open>15\<close>.
\<close>

lemma rounding_accepts_beyond_maxSpeed:
  "validateMovement (Some \<lparr> pos_x = Num 0, pos_y = Num 0 \<rparr>)
     (Some \<lparr> pos_x = Num 15, pos_y = Num (1 / 2 ^ 30) \<rparr>) None = Inr True
   \<and> 15 < sqrt ((15 - 0) * (15 - 0) + (1 / 2 ^ 30 - 0) * (1 / 2 ^ 30 - 0) :: real)"
proof
  have dx: "js_sub (Num 15) (Num 0) = Num 15" by (simp add: js_sub_def)
  have e1: "(1 / 2 ^ 30 :: real) + - 0 = 1 / 2 ^ 30" by simp
  have dy: "js_sub (Num (1 / 2 ^ 30)) (Num 0) = Num (1 / 2 ^ 30)"
    by (simp only: js_sub_def js_neg.simps js_add.simps e1 round64_two_powers)
  have a: "js_mul (Num 15) (Num 15) = Num 225" by simp
  have e2: "(1 / 2 ^ 30 :: real) * (1 / 2 ^ 30) = 1 / 2 ^ 60" by simp
  have b: "js_mul (Num (1 / 2 ^ 30)) (Num (1 / 2 ^ 30)) = Num (1 / 2 ^ 60)"
    by (simp only: js_mul.simps e2 round64_two_powers)
  have s: "js_add (Num 225) (Num (1 / 2 ^ 60)) = Num 225"
    by (simp only: js_add.simps round64_just_above_225)
  have "sqrt 225 = (15 :: real)" using sqrt_square_abs [of "15 :: real"] by simp
  then have r: "js_sqrt (Num 225) = Num 15" by simp
  show "validateMovement (Some \<lparr> pos_x = Num 0, pos_y = Num 0 \<rparr>)
     (Some \<lparr> pos_x = Num 15, pos_y = Num (1 / 2 ^ 30) \<rparr>) None = Inr True"
    by (simp only: validateMovement_def Let_def option.case position.select_convs dx dy a b s r
          js_le.simps order_refl)
  have "sqrt (15 * 15) < sqrt (15 * 15 + (1 / 2 ^ 30) * (1 / 2 ^ 30) :: real)"
    by (rule real_sqrt_less_mono) simp
  then show "15 < sqrt ((15 - 0) * (15 - 0) + (1 / 2 ^ 30 - 0) * (1 / 2 ^ 30 - 0) :: real)"
    using sqrt_square_abs [of "15 :: real"] by simp
qed

subsection \<open>Evaluation of the example states\<close>

lemmas handler_defs =
  step_def on_connection_def getWorld_def truthy_def spawn_def
  MAX_PLAYERS_PER_WORLD_def UPDATE_RATE_LIMIT_def socket_to_def io_to_def room_members_def
  io_to_socket_def player_move_def checkRateLimit_def chat_message_def player_interact_def
  player_emote_def on_disconnect_def cleanup_def

lemmas example_defs = init_def mk_auth_def mk_update_def

lemma one_player_fields:
  "sessions one_player = [(''s1'', \<lparr> userId = ''u1'', worldId = ''w'', world = 0 \<rparr>)]"
  "heap one_player 0 = [(''u1'', spawn ''u1'' (Some ''Alice'') 1000)]"
  "worlds one_player = [(''w'', 0)]"
  "rateLimits one_player = Map.empty"
  "userSockets one_player = [''u1'' \<mapsto> ''s1'']"
  by (simp_all add: one_player_def handler_defs example_defs Let_def)

lemma two_players_fields:
  "sessions two_players = [(''s1'', \<lparr> userId = ''u1'', worldId = ''w'', world = 0 \<rparr>),
                           (''s2'', \<lparr> userId = ''u2'', worldId = ''w'', world = 0 \<rparr>)]"
  "heap two_players 0 = [(''u1'', spawn ''u1'' (Some ''Alice'') 1000), (''u2'', spawn ''u2'' (Some ''Bob'') 2000)]"
  "worlds two_players = [(''w'', 0)]"
  "rateLimits two_players = Map.empty"
  by (simp_all add: two_players_def handler_defs example_defs Let_def)

lemma update_fresh: "k \<notin> fst ` set al \<Longrightarrow> AList.update k v al = al @ [(k, v)]"
  by (induction al) auto

lemma run_append: "run st (xs @ ys) = run (run st xs) ys"
  by (induction xs arbitrary: st) auto

lemma crowd_Suc: "crowd (Suc n) = crowd n @ [Connection (crowd_sock n) (mk_auth (crowd_user n) ''w'' ''P'') 0]"
  by (simp add: crowd_def)

lemma crowd_sock_fresh: "crowd_sock n \<notin> fst ` set (map (\<lambda>i. (crowd_sock i, f i)) [0..<n])"
  by (auto simp: crowd_sock_def)

lemma crowd_user_fresh: "crowd_user n \<notin> fst ` set (map (\<lambda>i. (crowd_user i, f i)) [0..<n])"
  by (auto simp: crowd_user_def)

lemma map_of_fresh: "k \<notin> fst ` set al \<Longrightarrow> map_of al k = None"
  by (simp add: map_of_eq_None_iff)

lemma crowd_state:
  "n \<le> 50 \<Longrightarrow>
     worlds (run init (crowd n)) = (if n = 0 then [] else [(''w'', 0)])
   \<and> nextAddr (run init (crowd n)) = (if n = 0 then 0 else 1)
   \<and> heap (run init (crowd n)) 0 = map (\<lambda>i. (crowd_user i, spawn (crowd_user i) (Some ''P'') 0)) [0..<n]
   \<and> sessions (run init (crowd n)) =
       map (\<lambda>i. (crowd_sock i, \<lparr> userId = crowd_user i, worldId = ''w'', world = 0 \<rparr>)) [0..<n]"
proof (induction n)
  case 0
  show ?case by (simp add: crowd_def init_def)
next
  case (Suc n)
  let ?st = "run init (crowd n)"
  from Suc have n: "n < 50" and
    ih: "worlds ?st = (if n = 0 then [] else [(''w'', 0)])"
        "nextAddr ?st = (if n = 0 then 0 else 1)"
        "heap ?st 0 = map (\<lambda>i. (crowd_user i, spawn (crowd_user i) (Some ''P'') 0)) [0..<n]"
        "sessions ?st = map (\<lambda>i. (crowd_sock i, \<lparr> userId = crowd_user i, worldId = ''w'', world = 0 \<rparr>)) [0..<n]"
    by simp_all
  have s: "map_of (sessions ?st) (crowd_sock n) = None"
    unfolding ih by (rule map_of_fresh [OF crowd_sock_fresh])
  have us: "AList.update (crowd_sock n) v (sessions ?st) = sessions ?st @ [(crowd_sock n, v)]" for v
    unfolding ih by (rule update_fresh [OF crowd_sock_fresh])
  have uh: "AList.update (crowd_user n) v (heap ?st 0) = heap ?st 0 @ [(crowd_user n, v)]" for v
    unfolding ih by (rule update_fresh [OF crowd_user_fresh])
  have cu: "crowd_user n \<noteq> []" by (simp add: crowd_user_def)
  show ?case
  proof (cases "n = 0")
    case True
    then show ?thesis
      by (simp add: crowd_def init_def handler_defs mk_auth_def Let_def crowd_user_def crowd_sock_def)
  next
    case False
    have len: "length (heap ?st 0) < 50" using n by (simp add: ih)
    show ?thesis using False len cu
      by (simp add: crowd_Suc run_append step_def s on_connection_def getWorld_def truthy_def
          mk_auth_def MAX_PLAYERS_PER_WORLD_def Let_def us uh ih(1,2))
         (simp add: ih)
  qed
qed

lemma full_world_fields:
  "length (heap full_world 0) = 50"
  "map_of (worlds full_world) ''w'' = Some 0"
  "map_of (sessions full_world) ''t'' = None"
  "map_of (heap full_world 0) ''u'' = Some (spawn ''u'' (Some ''P'') 0)"
proof -
  have c: "worlds full_world = [(''w'', 0)]"
    "heap full_world 0 = map (\<lambda>i. (crowd_user i, spawn (crowd_user i) (Some ''P'') 0)) [0..<50]"
    "sessions full_world = map (\<lambda>i. (crowd_sock i, \<lparr> userId = crowd_user i, worldId = ''w'', world = 0 \<rparr>)) [0..<50]"
    using crowd_state [of 50] by (simp_all add: full_world_def)
  show "length (heap full_world 0) = 50" by (simp add: c)
  show "map_of (worlds full_world) ''w'' = Some 0" by (simp add: c)
  show "map_of (sessions full_world) ''t'' = None"
    by (rule map_of_fresh) (auto simp: c crowd_sock_def)
  have "[0..<50] = 0 # [1..<50]" by (simp add: upt_conv_Cons)
  then show "map_of (heap full_world 0) ''u'' = Some (spawn ''u'' (Some ''P'') 0)"
    by (simp add: c crowd_user_def)
qed

lemma set_update_subset: "set (AList.update k v al) \<subseteq> insert (k, v) (set al)"
  by (induction al) auto

lemma set_delete_subset: "set (AList.delete k al) \<subseteq> set al"
  by (auto simp: AList.delete_eq)

lemma set_sweep_players_subset: "set (sweep_players now es w) \<subseteq> set w"
proof (induction es arbitrary: w)
  case Nil
  show ?case by simp
next
  case (Cons e es)
  obtain uid p where e: "e = (uid, p)" by (cases e)
  show ?case using Cons [of "AList.delete uid w"] Cons [of w] set_delete_subset [of uid w]
    by (auto simp: e)
qed

lemma ids_match_shrink:
  "ids_match h \<Longrightarrow> set w \<subseteq> set (h a) \<Longrightarrow> ids_match (h(a := w))"
  by (fastforce simp: ids_match_def)

lemma ids_match_update:
  "ids_match h \<Longrightarrow> player_id p = k \<Longrightarrow> ids_match (h(a := AList.update k p (h a)))"
  using set_update_subset [of k p "h a"] by (fastforce simp: ids_match_def)

lemma ids_match_lookup:
  "ids_match h \<Longrightarrow> map_of (h a) k = Some p \<Longrightarrow> player_id p = k"
  by (auto simp: ids_match_def dest!: map_of_SomeD)

lemma sweep_worlds_sessions: "sessions (sweep_worlds now ws st) = sessions st"
  by (induction ws arbitrary: st) (auto simp: Let_def)

lemma sweep_worlds_ids_match: "ids_match (heap st) \<Longrightarrow> ids_match (heap (sweep_worlds now ws st))"
proof (induction ws arbitrary: st)
  case Nil
  then show ?case by simp
next
  case (Cons e ws)
  obtain wid a where e: "e = (wid, a)" by (cases e)
  let ?w = "sweep_players now (heap st a) (heap st a)"
  have m: "ids_match ((heap st)(a := ?w))"
    by (rule ids_match_shrink [OF Cons.prems set_sweep_players_subset])
  have h: "heap (if length ?w = 0
                 then st\<lparr> heap := (heap st)(a := ?w) \<rparr>
                        \<lparr> worlds := AList.delete wid (worlds (st\<lparr> heap := (heap st)(a := ?w) \<rparr>)) \<rparr>
                 else st\<lparr> heap := (heap st)(a := ?w) \<rparr>) = (heap st)(a := ?w)"
    by (simp del: fun_upd_apply)
  show ?case
    unfolding e sweep_worlds.simps Let_def
    by (rule Cons.IH) (simp only: h m)
qed

lemma step_sessions_distinct:
  "distinct (map fst (sessions st)) \<Longrightarrow> distinct (map fst (sessions (fst (step st ev))))"
  by (cases ev)
     (auto simp: step_def on_connection_def getWorld_def player_move_def
        checkRateLimit_def chat_message_def player_interact_def player_emote_def on_disconnect_def
        cleanup_def sweep_worlds_sessions Let_def distinct_update distinct_delete
        split: option.splits sum.splits prod.splits if_splits)

lemma getWorld_ids_match: "ids_match (heap st) \<Longrightarrow> ids_match (heap (snd (getWorld wid st)))"
  by (auto simp: getWorld_def ids_match_def split: option.splits)

lemma on_connection_ids_match:
  "ids_match (heap st) \<Longrightarrow> ids_match (heap (fst (on_connection st sock auth now)))"
proof -
  assume i: "ids_match (heap st)"
  have sp: "player_id (spawn uid n t) = uid" for uid n t by (simp add: spawn_def)
  show ?thesis
    using getWorld_ids_match [OF i]
    by (auto simp: on_connection_def Let_def i sp ids_match_update
          split: option.splits prod.splits dest!: arg_cong [where f = snd])
qed

lemma player_move_ids_match:
  "ids_match (heap st) \<Longrightarrow> ids_match (heap (fst (player_move st sock c u now now2)))"
proof -
  assume i: "ids_match (heap st)"
  have "ids_match ((heap st)(world c := AList.update (userId c) (p\<lparr> position := np, direction := d, isMoving := m, timestamp := t \<rparr>) (heap st (world c))))"
    if "map_of (heap st (world c)) (userId c) = Some p" for p np d m t
    using ids_match_lookup [OF i that] by (intro ids_match_update [OF i]) simp
  then show ?thesis using i
    by (auto simp: player_move_def checkRateLimit_def Let_def
          split: option.splits sum.splits prod.splits if_splits)
qed

lemma on_disconnect_ids_match:
  "ids_match (heap st) \<Longrightarrow> ids_match (heap (fst (on_disconnect st sock c)))"
  by (auto simp: on_disconnect_def Let_def intro!: ids_match_shrink set_delete_subset)

lemma step_ids_match: "ids_match (heap st) \<Longrightarrow> ids_match (heap (fst (step st ev)))"
  by (cases ev)
     (auto simp: step_def on_connection_ids_match player_move_ids_match on_disconnect_ids_match
        cleanup_def sweep_worlds_ids_match chat_message_def player_interact_def player_emote_def
        split: option.splits)

lemma run_invariants:
  "distinct (map fst (sessions st)) \<Longrightarrow> ids_match (heap st) \<Longrightarrow>
   distinct (map fst (sessions (run st evs))) \<and> ids_match (heap (run st evs))"
  by (induction evs arbitrary: st) (auto simp: step_sessions_distinct step_ids_match)

lemma reachable_invariants:
  "distinct (map fst (sessions (run init evs)))" "ids_match (heap (run init evs))"
  using run_invariants [of init evs] by (simp_all add: init_def ids_match_def)

lemma distinct_room_members:
  "distinct (map fst (sessions st)) \<Longrightarrow> distinct (room_members st wid)"
  by (simp add: room_members_def distinct_map_filter)

lemma member_room_members:
  "map_of (sessions st) sock = Some c \<Longrightarrow> sock \<in> set (room_members st (worldId c))"
  by (force simp: room_members_def dest!: map_of_SomeD)

lemma room_members_fresh:
  "map_of (sessions st) sock = None \<Longrightarrow> sock \<notin> set (room_members st wid)"
  by (auto simp: room_members_def map_of_eq_None_iff image_iff)

lemma room_members_join:
  assumes "map_of (sessions st) sock = None"
  shows "room_members (st'\<lparr> sessions := AList.update sock \<lparr> userId = uid, worldId = wid, world = a \<rparr> (sessions st) \<rparr>) wid
           = room_members st wid @ [sock]"
proof -
  from assms have "sock \<notin> fst ` set (sessions st)" by (simp add: map_of_eq_None_iff)
  then show ?thesis by (simp add: room_members_def update_fresh)
qed

lemma socket_to_after_join:
  assumes "map_of (sessions st) sock = None"
  shows "socket_to (st'\<lparr> sessions := AList.update sock \<lparr> userId = uid, worldId = wid, world = a \<rparr> (sessions st) \<rparr>) sock wid m
           = map (\<lambda>s. Emit s m) (room_members st wid)"
proof -
  have "filter (\<lambda>s. s \<noteq> sock) (room_members st wid) = room_members st wid"
    using room_members_fresh [OF assms, of wid] by (auto simp: filter_id_conv)
  then show ?thesis unfolding socket_to_def room_members_join [OF assms] by simp
qed

lemma snapshot_ids:
  assumes "ids_match h"
  shows "(map_of (h a) uid = None \<longrightarrow> (\<forall>q \<in> set (map snd (h a)). player_id q \<noteq> uid))
       \<and> (\<forall>q. map_of (h a) uid = Some q \<longrightarrow> q \<in> set (map snd (h a)) \<and> player_id q = uid)"
proof (intro conjI impI allI ballI)
  fix q assume n: "map_of (h a) uid = None" and q: "q \<in> set (map snd (h a))"
  from q obtain k where kq: "(k, q) \<in> set (h a)" by auto
  with assms have "player_id q = k" by (auto simp: ids_match_def)
  moreover from n kq have "k \<noteq> uid" by (force simp: map_of_eq_None_iff)
  ultimately show "player_id q \<noteq> uid" by simp
next
  fix q assume s: "map_of (h a) uid = Some q"
  then show "q \<in> set (map snd (h a))" by (force dest!: map_of_SomeD)
  from s show "player_id q = uid" by (rule ids_match_lookup [OF assms])
qed

lemma walk_left_Suc:
  "walk_left (Suc n) = walk_left n @ [PlayerMove ''s1'' (mk_update (500 - 15 * real (Suc n)) 500)
                            (1000000 + 50 * int n) (1000000 + 50 * int n)]"
  by (simp add: walk_left_def)

lemma walk_left_state:
  "sessions (run one_player (walk_left n)) = sessions one_player
   \<and> map_option position (map_of (heap (run one_player (walk_left n)) 0) ''u1'')
       = Some \<lparr> pos_x = Num (500 - 15 * real n), pos_y = Num 500 \<rparr>
   \<and> rateLimits (run one_player (walk_left n)) ''s1''
       = (if n = 0 then None else Some (1000000 + 50 * int (n - 1)))"
proof (induction n)
  case 0
  show ?case by (simp add: walk_left_def one_player_fields spawn_def)
next
  case (Suc n)
  let ?st = "run one_player (walk_left n)"
  from Suc obtain p where
    s: "map_of (sessions ?st) ''s1'' = Some \<lparr> userId = ''u1'', worldId = ''w'', world = 0 \<rparr>"
    and ss: "sessions ?st = sessions one_player"
    and p: "map_of (heap ?st 0) ''u1'' = Some p" "position p = \<lparr> pos_x = Num (500 - 15 * real n), pos_y = Num 500 \<rparr>"
    and r: "rateLimits ?st ''s1'' = (if n = 0 then None else Some (1000000 + 50 * int (n - 1)))"
    by (auto simp: one_player_fields)
  have g: "checkRateLimit ''s1'' (1000000 + 50 * int n) ?st
             = (True, ?st\<lparr> rateLimits := (rateLimits ?st)(''s1'' \<mapsto> 1000000 + 50 * int n) \<rparr>)"
    using r by (cases n) (simp_all add: checkRateLimit_def UPDATE_RATE_LIMIT_def)
  have v: "validateMovement (Some (position p)) (upd_position (mk_update (500 - 15 * real (Suc n)) 500)) None = Inr True"
    using validateMovement_axis [of "500 - 15 * real (Suc n)" "500 - 15 * real n" "- 15" 500]
    by (simp add: p mk_update_def)
  show ?case
    using s p v
    by (simp add: walk_left_Suc run_append step_def player_move_def g Let_def update_conv' ss)
       (simp add: mk_update_def Let_def update_conv' ss)
qed

lemma update_present_keys:
  "map_of al k = Some v' \<Longrightarrow> map fst (AList.update k v al) = map fst al"
  by (auto simp: update_keys dest!: map_of_SomeD intro: rev_image_eqI)

section \<open>The registry never holds an empty world\<close>

lemma registry_okI:
  assumes "distinct (map fst (worlds st))" "distinct (map snd (worlds st))"
    and "\<And>w a. (w, a) \<in> set (worlds st) \<Longrightarrow> a < nextAddr st \<and> heap st a \<noteq> []"
    and "\<And>s c. (s, c) \<in> set (sessions st) \<Longrightarrow> world c < nextAddr st"
    and "\<And>s c w. (s, c) \<in> set (sessions st) \<Longrightarrow> (w, world c) \<in> set (worlds st) \<Longrightarrow> w = worldId c"
  shows "registry_ok st"
  using assms unfolding registry_ok_def by blast

lemma registry_okD:
  assumes "registry_ok st"
  shows "distinct (map fst (worlds st))" "distinct (map snd (worlds st))"
    and "\<And>w a. (w, a) \<in> set (worlds st) \<Longrightarrow> a < nextAddr st"
    and "\<And>w a. (w, a) \<in> set (worlds st) \<Longrightarrow> heap st a \<noteq> []"
    and "\<And>s c. (s, c) \<in> set (sessions st) \<Longrightarrow> world c < nextAddr st"
    and "\<And>s c w. (s, c) \<in> set (sessions st) \<Longrightarrow> (w, world c) \<in> set (worlds st) \<Longrightarrow> w = worldId c"
  using assms unfolding registry_ok_def by blast+

lemma distinct_snd_unique:
  "distinct (map snd l) \<Longrightarrow> (w, a) \<in> set l \<Longrightarrow> (w', a) \<in> set l \<Longrightarrow> w = w'"
  by (induction l) (auto simp: image_iff)

lemma distinct_snd_delete: "distinct (map snd l) \<Longrightarrow> distinct (map snd (AList.delete k l))"
  by (simp add: AList.delete_eq distinct_map_filter)

lemma delete_key_gone: "(k, v) \<notin> set (AList.delete k l)"
  by (auto simp: AList.delete_eq)

lemma in_deleteD: "x \<in> set (AList.delete k l) \<Longrightarrow> x \<in> set l"
  using set_delete_subset by fastforce

lemma player_move_registry_ok:
  assumes "registry_ok st"
  shows "registry_ok (fst (player_move st sock c u now now2))"
  using assms
  by (auto simp: registry_ok_def player_move_def checkRateLimit_def Let_def
        split: option.splits sum.splits if_splits)

lemma on_disconnect_registry_ok:
  assumes ok: "registry_ok st" and s: "map_of (sessions st) sock = Some c"
  shows "registry_ok (fst (on_disconnect st sock c))"
proof -
  let ?st' = "fst (on_disconnect st sock c)"
  let ?w = "AList.delete (userId c) (heap st (world c))"
  note d = registry_okD [OF ok]
  from s have m: "(sock, c) \<in> set (sessions st)" by (rule map_of_SomeD)
  have se: "sessions ?st' = AList.delete sock (sessions st)"
    and he: "heap ?st' = (heap st)(world c := ?w)"
    and ne: "nextAddr ?st' = nextAddr st"
    and we: "worlds ?st' = (if ?w = [] then AList.delete (worldId c) (worlds st) else worlds st)"
    by (simp_all add: on_disconnect_def Let_def)
  have sub: "x \<in> set (worlds ?st') \<Longrightarrow> x \<in> set (worlds st)" for x
    by (auto simp: we dest: in_deleteD split: if_splits)
  show ?thesis
  proof (rule registry_okI)
    show "distinct (map fst (worlds ?st'))" using d(1) by (simp add: we distinct_delete)
    show "distinct (map snd (worlds ?st'))" using d(2) by (simp add: we distinct_snd_delete)
  next
    fix w a assume wa: "(w, a) \<in> set (worlds ?st')"
    then have old: "(w, a) \<in> set (worlds st)" by (rule sub)
    have "heap ?st' a \<noteq> []"
    proof (cases "a = world c")
      case True
      with old m have "w = worldId c" using d(6) by blast
      with wa have "?w \<noteq> []" by (auto simp: we delete_key_gone split: if_splits)
      with True show ?thesis by (simp add: he)
    next
      case False
      then show ?thesis using d(4) [OF old] by (simp add: he)
    qed
    with d(3) [OF old] show "a < nextAddr ?st' \<and> heap ?st' a \<noteq> []" by (simp add: ne)
  next
    fix s' c' assume "(s', c') \<in> set (sessions ?st')"
    then have old: "(s', c') \<in> set (sessions st)" by (auto simp: se dest: in_deleteD)
    show "world c' < nextAddr ?st'" using d(5) [OF old] by (simp add: ne)
    fix w assume "(w, world c') \<in> set (worlds ?st')"
    then have "(w, world c') \<in> set (worlds st)" by (rule sub)
    with old show "w = worldId c'" by (rule d(6))
  qed
qed

lemma in_updateD: "x \<in> set (AList.update k v l) \<Longrightarrow> x = (k, v) \<or> x \<in> set l"
  using set_update_subset by fastforce

lemma on_connection_registry_ok:
  assumes ok: "registry_ok st"
  shows "registry_ok (fst (on_connection st sock auth now))"
proof (cases "\<exists>uid wid. truthy (auth_userId auth) = Some uid \<and> truthy (auth_worldId auth) = Some wid")
  case False
  then show ?thesis using ok by (auto simp: on_connection_def split: option.splits)
next
  case True
  then obtain uid wid where t: "truthy (auth_userId auth) = Some uid" "truthy (auth_worldId auth) = Some wid"
    by blast
  note d = registry_okD [OF ok]
  let ?st' = "fst (on_connection st sock auth now)"
  let ?p = "spawn uid (auth_username auth) now"
  show ?thesis
  proof (cases "map_of (worlds st) wid")
    case None
    let ?a = "nextAddr st"
    have se: "sessions ?st' = AList.update sock \<lparr> userId = uid, worldId = wid, world = ?a \<rparr> (sessions st)"
      and he: "heap ?st' = (heap st)(?a := [(uid, ?p)])"
      and ne: "nextAddr ?st' = Suc ?a"
      and we: "worlds ?st' = AList.update wid ?a (worlds st)"
      using t None
      by (simp_all add: on_connection_def getWorld_def Let_def MAX_PLAYERS_PER_WORLD_def)
    from None have fresh: "wid \<notin> fst ` set (worlds st)" by (simp add: map_of_eq_None_iff)
    have we': "worlds ?st' = worlds st @ [(wid, ?a)]" by (simp add: we update_fresh [OF fresh])
    have anew: "?a \<notin> snd ` set (worlds st)" using d(3) by fastforce
    show ?thesis
    proof (rule registry_okI)
      show "distinct (map fst (worlds ?st'))" using d(1) by (simp add: we distinct_update)
      show "distinct (map snd (worlds ?st'))" using d(2) anew by (simp add: we')
    next
      fix w a assume "(w, a) \<in> set (worlds ?st')"
      then show "a < nextAddr ?st' \<and> heap ?st' a \<noteq> []"
        using d(3,4) by (fastforce simp: we' he ne)
    next
      fix s' c' assume sc: "(s', c') \<in> set (sessions ?st')"
      then consider "c' = \<lparr> userId = uid, worldId = wid, world = ?a \<rparr>" | "(s', c') \<in> set (sessions st)"
        by (auto simp: se dest: in_updateD)
      then show "world c' < nextAddr ?st'"
        using d(5) by cases (auto simp: ne less_Suc_eq)
      fix w assume w: "(w, world c') \<in> set (worlds ?st')"
      from sc consider "c' = \<lparr> userId = uid, worldId = wid, world = ?a \<rparr>" | "(s', c') \<in> set (sessions st)"
        by (auto simp: se dest: in_updateD)
      then show "w = worldId c'"
      proof cases
        case 1
        with w anew show ?thesis by (force simp: we')
      next
        case 2
        from d(5) [OF 2] have "world c' \<noteq> ?a" by simp
        with w have "(w, world c') \<in> set (worlds st)" by (simp add: we')
        with 2 show ?thesis by (rule d(6))
      qed
    qed
  next
    case (Some a)
    then have reg: "(wid, a) \<in> set (worlds st)" by (rule map_of_SomeD)
    show ?thesis
    proof (cases "length (heap st a) \<ge> MAX_PLAYERS_PER_WORLD")
      case True
      then show ?thesis using t Some ok
        by (simp add: on_connection_def getWorld_def Let_def)
    next
      case False
      have se: "sessions ?st' = AList.update sock \<lparr> userId = uid, worldId = wid, world = a \<rparr> (sessions st)"
        and he: "heap ?st' = (heap st)(a := AList.update uid ?p (heap st a))"
        and ne: "nextAddr ?st' = nextAddr st"
        and we: "worlds ?st' = worlds st"
        using t Some False
        by (simp_all add: on_connection_def getWorld_def Let_def)
      show ?thesis
      proof (rule registry_okI)
        show "distinct (map fst (worlds ?st'))" using d(1) by (simp add: we)
        show "distinct (map snd (worlds ?st'))" using d(2) by (simp add: we)
      next
        fix w a' assume "(w, a') \<in> set (worlds ?st')"
        then show "a' < nextAddr ?st' \<and> heap ?st' a' \<noteq> []"
          using d(3,4) by (auto simp: we he ne)
      next
        fix s' c' assume sc: "(s', c') \<in> set (sessions ?st')"
        then consider "c' = \<lparr> userId = uid, worldId = wid, world = a \<rparr>" | "(s', c') \<in> set (sessions st)"
          by (auto simp: se dest: in_updateD)
        then show "world c' < nextAddr ?st'"
          using d(5) d(3) [OF reg] by cases (auto simp: ne)
        fix w assume w: "(w, world c') \<in> set (worlds ?st')"
        from sc consider "c' = \<lparr> userId = uid, worldId = wid, world = a \<rparr>" | "(s', c') \<in> set (sessions st)"
          by (auto simp: se dest: in_updateD)
        then show "w = worldId c'"
        proof cases
          case 1
          with w have "(w, a) \<in> set (worlds st)" by (simp add: we)
          from distinct_snd_unique [OF d(2) this reg] 1 show ?thesis by simp
        next
          case 2
          from w have "(w, world c') \<in> set (worlds st)" by (simp add: we)
          with 2 show ?thesis by (rule d(6))
        qed
      qed
    qed
  qed
qed

lemma in_deleteI: "(w, a) \<in> set l \<Longrightarrow> w \<noteq> k \<Longrightarrow> (w, a) \<in> set (AList.delete k l)"
  by (auto simp: AList.delete_eq)

lemma distinct_fst_unique:
  "distinct (map fst l) \<Longrightarrow> (w, a) \<in> set l \<Longrightarrow> (w, a') \<in> set l \<Longrightarrow> a = a'"
  by (induction l) (auto simp: image_iff)

lemma sweep_worlds_registry_ok:
  assumes "distinct (map fst (worlds st))" "distinct (map snd (worlds st))"
    and "\<And>w a. (w, a) \<in> set (worlds st) \<Longrightarrow> a < nextAddr st"
    and "\<And>w a. (w, a) \<in> set (worlds st) \<Longrightarrow> (w, a) \<notin> set ws \<Longrightarrow> heap st a \<noteq> []"
    and "\<And>s c. (s, c) \<in> set (sessions st) \<Longrightarrow> world c < nextAddr st"
    and "\<And>s c w. (s, c) \<in> set (sessions st) \<Longrightarrow> (w, world c) \<in> set (worlds st) \<Longrightarrow> w = worldId c"
    and "set ws \<subseteq> set (worlds st)" "distinct ws"
  shows "registry_ok (sweep_worlds now ws st)"
  using assms
proof (induction ws arbitrary: st)
  case Nil
  show ?case
    by (simp, rule registry_okI) (use Nil in \<open>auto\<close>)
next
  case (Cons e ws)
  obtain wid a where e: "e = (wid, a)" by (cases e)
  let ?w = "sweep_players now (heap st a) (heap st a)"
  let ?st1 = "st\<lparr> heap := (heap st)(a := ?w) \<rparr>"
  let ?st2 = "if length ?w = 0 then ?st1\<lparr> worlds := AList.delete wid (worlds ?st1) \<rparr> else ?st1"
  have se: "sessions ?st2 = sessions st"
    and he: "heap ?st2 = (heap st)(a := ?w)"
    and ne: "nextAddr ?st2 = nextAddr st"
    and we: "worlds ?st2 = (if ?w = [] then AList.delete wid (worlds st) else worlds st)"
    by simp_all
  from Cons.prems(7) have reg: "(wid, a) \<in> set (worlds st)" by (simp add: e)
  from Cons.prems(8) have notin: "(wid, a) \<notin> set ws" and dws: "distinct ws" by (simp_all add: e)
  have sub: "x \<in> set (worlds ?st2) \<Longrightarrow> x \<in> set (worlds st)" for x
    unfolding we by (auto dest: in_deleteD split: if_splits)
  have "registry_ok (sweep_worlds now ws ?st2)"
  proof (rule Cons.IH)
    show "distinct (map fst (worlds ?st2))"
      unfolding we using Cons.prems(1) by (simp add: distinct_delete)
    show "distinct (map snd (worlds ?st2))"
      unfolding we using Cons.prems(2) by (simp add: distinct_snd_delete)
    show "distinct ws" by (rule dws)
    show "set ws \<subseteq> set (worlds ?st2)"
    proof
      fix x assume x: "x \<in> set ws"
      obtain w a' where xa: "x = (w, a')" by (cases x)
      from x Cons.prems(7) have old: "(w, a') \<in> set (worlds st)" by (auto simp: xa)
      have "w \<noteq> wid"
      proof
        assume "w = wid"
        with old reg have "a' = a" using distinct_fst_unique [OF Cons.prems(1)] by blast
        with \<open>w = wid\<close> x notin show False by (simp add: xa)
      qed
      with old show "x \<in> set (worlds ?st2)"
        unfolding we xa by (simp add: in_deleteI)
    qed
  next
    fix w a' assume "(w, a') \<in> set (worlds ?st2)"
    then have "(w, a') \<in> set (worlds st)" by (rule sub)
    then show "a' < nextAddr ?st2" unfolding ne by (rule Cons.prems(3))
  next
    fix w a' assume in2: "(w, a') \<in> set (worlds ?st2)" and nws: "(w, a') \<notin> set ws"
    from in2 have old: "(w, a') \<in> set (worlds st)" by (rule sub)
    show "heap ?st2 a' \<noteq> []"
    proof (cases "a' = a")
      case True
      with old reg have "w = wid" using distinct_snd_unique [OF Cons.prems(2)] by blast
      with in2 True have "?w \<noteq> []"
        unfolding we by (auto simp: delete_key_gone split: if_splits)
      with True show ?thesis unfolding he by simp
    next
      case False
      with nws have "(w, a') \<notin> set (e # ws)" by (simp add: e)
      from Cons.prems(4) [OF old this] False show ?thesis unfolding he by simp
    qed
  next
    fix s c assume sc: "(s, c) \<in> set (sessions ?st2)"
    then have old: "(s, c) \<in> set (sessions st)" unfolding se .
    then show "world c < nextAddr ?st2" unfolding ne by (rule Cons.prems(5))
    fix w assume "(w, world c) \<in> set (worlds ?st2)"
    then have "(w, world c) \<in> set (worlds st)" by (rule sub)
    with old show "w = worldId c" by (rule Cons.prems(6))
  qed
  then show ?case by (simp add: e Let_def)
qed

lemma cleanup_registry_ok:
  assumes "registry_ok st"
  shows "registry_ok (fst (cleanup st now))"
proof -
  note d = registry_okD [OF assms]
  have "distinct (worlds st)" using d(1) by (rule distinct_map [THEN iffD1, THEN conjunct1])
  then show ?thesis
    unfolding cleanup_def fst_conv
    by (intro sweep_worlds_registry_ok d subset_refl) (use d in \<open>auto\<close>)
qed

lemma step_registry_ok: "registry_ok st \<Longrightarrow> registry_ok (fst (step st ev))"
  by (cases ev)
     (auto simp: step_def on_connection_registry_ok player_move_registry_ok
        on_disconnect_registry_ok cleanup_registry_ok chat_message_def player_interact_def
        player_emote_def split: option.splits)

lemma run_registry_ok: "registry_ok st \<Longrightarrow> registry_ok (run st evs)"
  by (induction evs arbitrary: st) (auto simp: step_registry_ok)

text \<open>
  In every reachable state a world that is present in the registry holds at
  least one player record.
\<close>

lemma registered_world_has_member:
  "map_of (worlds (run init evs)) wid = Some a \<Longrightarrow> heap (run init evs) a \<noteq> []"
proof -
  assume r: "map_of (worlds (run init evs)) wid = Some a"
  have "registry_ok init" by (simp add: registry_ok_def init_def)
  then have "registry_ok (run init evs)" by (rule run_registry_ok)
  from registry_okD(4) [OF this map_of_SomeD [OF r]] show ?thesis .
qed

text \<open>The periodic cleanup never sends anything.\<close>

lemma cleanup_emits_nothing: "snd (step st (Cleanup now)) = []"
  by (simp add: step_def cleanup_def)

section \<open>C1: the Movement Validator\<close>

text \<open>
  Claim C1 as stated does not hold: the validator computes the distance in
  double-precision arithmetic.  For the move from \<open>(0, 0)\<close> to \<open>(15, 2 ^ -30)\<close>
  the sum of the squares, \<open>225 + 2 ^ -60\<close>, rounds to \<open>225\<close>; the computed distance
  is \<open>15\<close> and the move is accepted, although the Euclidean distance of the two
  positions is more than \<open>15\<close>.
\<close>

theorem validateMovement_rounding_counterexample:
  "validateMovement (Some \<lparr> pos_x = Num 0, pos_y = Num 0 \<rparr>)
     (Some \<lparr> pos_x = Num 15, pos_y = Num (1 / 2 ^ 30) \<rparr>) None = Inr True
   \<and> \<not> euclid_le \<lparr> pos_x = Num 15, pos_y = Num (1 / 2 ^ 30) \<rparr> \<lparr> pos_x = Num 0, pos_y = Num 0 \<rparr> 15"
  using rounding_accepts_beyond_maxSpeed
  by (simp only: euclid_le_def euclid_Num option.case not_le)

text \<open>
  Claim C1, amended.  \<^verbatim>\<open>validateMovement\<close> is a function of the previous
  position, the proposed position and \<open>maxSpeed\<close> (15 when the argument is left
  out) alone.  It accepts whenever the previous position is undefined, and
  otherwise accepts exactly when the distance it computes in double precision
  (\<^verbatim>\<open>Math.sqrt(dx * dx + dy * dy)\<close>, every operation rounded to the nearest
  double) is at most \<open>maxSpeed\<close>.  With the default \<open>maxSpeed\<close> this is the
  Euclidean test up to rounding: an accepted move has Euclidean distance at
  most \<open>15 + 2 ^ -40\<close>, and a move of Euclidean distance at most \<open>15 - 2 ^ -40\<close>
  is accepted.  No time enters the decision: for a move that passed the rate
  limiter, at whatever time and however old the player's last update, the
  handler answers with the position reset exactly when the computed distance
  to the player's current position exceeds 15.
\<close>

theorem validateMovement_decides_by_computed_distance:
  "validateMovement None newPos maxSpeed = Inr True
   \<and> validateMovement (Some old) (Some new) maxSpeed
       = Inr (js_le (computed_distance new old) (case maxSpeed of None \<Rightarrow> Num 15 | Some m \<Rightarrow> m))
   \<and> (validateMovement (Some old) (Some new) None = Inr True \<longrightarrow>
        euclid_le new old (15 + 1 / 2 ^ 40))
   \<and> (euclid_le new old (15 - 1 / 2 ^ 40) \<longrightarrow>
        validateMovement (Some old) (Some new) None = Inr True)
   \<and> (map_of (sessions st) sock = Some c \<longrightarrow>
      map_of (heap st (world c)) (userId c) = Some p \<longrightarrow>
      fst (checkRateLimit sock now st) \<longrightarrow>
        (snd (step st (PlayerMove sock
                 \<lparr> upd_position = Some new, upd_direction = d, upd_isMoving = m \<rparr> now now2))
           = [Emit sock (PlayerPositionReset (position p))])
        = (\<not> js_le (computed_distance new (position p)) (Num 15)))"
proof (intro conjI impI)
  show "validateMovement None newPos maxSpeed = Inr True"
    by (simp add: validateMovement_def)
  show "validateMovement (Some old) (Some new) maxSpeed
       = Inr (js_le (computed_distance new old) (case maxSpeed of None \<Rightarrow> Num 15 | Some m \<Rightarrow> m))"
    by (rule validateMovement_computed)
next
  assume "validateMovement (Some old) (Some new) None = Inr True"
  then have "js_le (computed_distance new old) (Num 15)"
    by (simp add: validateMovement_computed)
  then show "euclid_le new old (15 + 1 / 2 ^ 40)" by (rule accepted_implies_euclid)
next
  assume "euclid_le new old (15 - 1 / 2 ^ 40)"
  then have "js_le (computed_distance new old) (Num 15)" by (rule euclid_implies_accepted)
  then show "validateMovement (Some old) (Some new) None = Inr True"
    by (simp add: validateMovement_computed)
next
  assume s: "map_of (sessions st) sock = Some c"
    and p: "map_of (heap st (world c)) (userId c) = Some p"
    and g: "fst (checkRateLimit sock now st)"
  from g have g': "checkRateLimit sock now st = (True, st\<lparr> rateLimits := (rateLimits st)(sock \<mapsto> now) \<rparr>)"
    by (auto simp: checkRateLimit_def Let_def split: if_splits)
  show "(snd (step st (PlayerMove sock
                 \<lparr> upd_position = Some new, upd_direction = d, upd_isMoving = m \<rparr> now now2))
           = [Emit sock (PlayerPositionReset (position p))])
        = (\<not> js_le (computed_distance new (position p)) (Num 15))"
    using s p
    by (auto simp: step_def player_move_def g' validateMovement_computed Let_def socket_to_def)
qed

theorem validateMovement_decides_by_computed_distance_witness:
  "validateMovement (Some \<lparr> pos_x = Num 100, pos_y = Num 100 \<rparr>)
     (Some \<lparr> pos_x = Num 200, pos_y = Num 100 \<rparr>) None = Inr False
   \<and> euclid_le \<lparr> pos_x = Num 110, pos_y = Num 100 \<rparr> \<lparr> pos_x = Num 100, pos_y = Num 100 \<rparr> (15 - 1 / 2 ^ 40)
   \<and> validateMovement (Some \<lparr> pos_x = Num 100, pos_y = Num 100 \<rparr>)
       (Some \<lparr> pos_x = Num 110, pos_y = Num 100 \<rparr>) None = Inr True
   \<and> euclid_le \<lparr> pos_x = Num 110, pos_y = Num 100 \<rparr> \<lparr> pos_x = Num 100, pos_y = Num 100 \<rparr> (15 + 1 / 2 ^ 40)
   \<and> map_of (sessions one_player) ''s1'' = Some \<lparr> userId = ''u1'', worldId = ''w'', world = 0 \<rparr>
   \<and> map_of (heap one_player 0) ''u1'' = Some (spawn ''u1'' (Some ''Alice'') 1000)
   \<and> fst (checkRateLimit ''s1'' 999999 one_player)
   \<and> snd (step one_player (PlayerMove ''s1''
             \<lparr> upd_position = Some \<lparr> pos_x = Num 600, pos_y = Num 500 \<rparr>, upd_direction = ''right'',
               upd_isMoving = True \<rparr> 999999 999999))
       = [Emit ''s1'' (PlayerPositionReset \<lparr> pos_x = Num 500, pos_y = Num 500 \<rparr>)]"
proof -
  let ?o = "\<lparr> pos_x = Num 100, pos_y = Num 100 \<rparr>"
  let ?far = "\<lparr> pos_x = Num 200, pos_y = Num 100 \<rparr>"
  let ?near = "\<lparr> pos_x = Num 110, pos_y = Num 100 \<rparr>"
  have h1: "map_of (sessions one_player) ''s1'' = Some \<lparr> userId = ''u1'', worldId = ''w'', world = 0 \<rparr>"
    by (simp add: one_player_fields)
  have h2: "map_of (heap one_player (world \<lparr> userId = ''u1'', worldId = ''w'', world = 0 \<rparr>))
              (userId \<lparr> userId = ''u1'', worldId = ''w'', world = 0 \<rparr>) = Some (spawn ''u1'' (Some ''Alice'') 1000)"
    by (simp add: one_player_fields)
  have h3: "fst (checkRateLimit ''s1'' 999999 one_player)"
    by (simp add: checkRateLimit_def one_player_fields UPDATE_RATE_LIMIT_def)
  have e: "\<not> js_le (computed_distance \<lparr> pos_x = Num 600, pos_y = Num 500 \<rparr>
                       (position (spawn ''u1'' (Some ''Alice'') 1000))) (Num 15)"
    using computed_distance_axis [of 600 500 100 500] by (simp add: spawn_def)
  have far: "computed_distance ?far ?o = Num 100"
    using computed_distance_axis [of 200 100 100 100] by simp
  have "sqrt ((110 - 100) * (110 - 100) + (100 - 100) * (100 - 100)) = (10 :: real)"
    using sqrt_square_abs [of "10 :: real"] by simp
  then have close: "euclid_le ?near ?o (15 - 1 / 2 ^ 40)"
    by (simp add: euclid_le_def euclid_Num)
  note t = validateMovement_decides_by_computed_distance
  have a: "validateMovement (Some ?o) (Some ?far) None = Inr False"
    using t [where old = ?o and new = ?far and maxSpeed = None] far by simp
  have b: "validateMovement (Some ?o) (Some ?near) None = Inr True"
    using t [where old = ?o and new = ?near] close by blast
  have b': "euclid_le ?near ?o (15 + 1 / 2 ^ 40)"
    using t [where old = ?o and new = ?near] b by blast
  have c: "snd (step one_player (PlayerMove ''s1''
             \<lparr> upd_position = Some \<lparr> pos_x = Num 600, pos_y = Num 500 \<rparr>, upd_direction = ''right'',
               upd_isMoving = True \<rparr> 999999 999999))
       = [Emit ''s1'' (PlayerPositionReset (position (spawn ''u1'' (Some ''Alice'') 1000)))]"
    using t [where st = one_player and sock = "''s1''" and c = "\<lparr> userId = ''u1'', worldId = ''w'', world = 0 \<rparr>"
               and p = "spawn ''u1'' (Some ''Alice'') 1000" and now = 999999
               and new = "\<lparr> pos_x = Num 600, pos_y = Num 500 \<rparr>"] h1 h2 h3 e
    by blast
  have sp: "position (spawn ''u1'' (Some ''Alice'') 1000) = \<lparr> pos_x = Num 500, pos_y = Num 500 \<rparr>"
    by (simp add: spawn_def)
  show ?thesis
    using a b b' close c h1 h3 by (simp only: sp) (simp add: one_player_fields)
qed

section \<open>C2: a move the validator rejects\<close>

text \<open>
  Claim C2.  When a move event of a connected player has passed the rate
  limiter and the Movement Validator rejects its proposed position, the
  handler changes nothing but the rate limiter's clock: the player's record
  (position, direction, isMoving, timestamp), the registry and the set of
  connections stay as they were.  The only effect is one position-reset
  message, to the originating socket, carrying the player's current position;
  nothing is broadcast and the socket is not disconnected.
\<close>

theorem rejected_move_soft_fail:
  assumes "map_of (sessions st) sock = Some c"
    and "map_of (heap st (world c)) (userId c) = Some p"
    and "fst (checkRateLimit sock now st)"
    and "validateMovement (Some (position p)) (upd_position u) None = Inr False"
  shows "step st (PlayerMove sock u now now2)
           = (st\<lparr> rateLimits := (rateLimits st)(sock \<mapsto> now) \<rparr>,
              [Emit sock (PlayerPositionReset (position p))])"
proof -
  from assms(3) have g': "checkRateLimit sock now st = (True, st\<lparr> rateLimits := (rateLimits st)(sock \<mapsto> now) \<rparr>)"
    by (auto simp: checkRateLimit_def Let_def split: if_splits)
  show ?thesis using assms(1,2,4)
    by (simp add: step_def player_move_def g')
qed

theorem rejected_move_soft_fail_witness:
  "map_of (sessions one_player) ''s1'' = Some \<lparr> userId = ''u1'', worldId = ''w'', world = 0 \<rparr>
   \<and> map_of (heap one_player 0) ''u1'' = Some (spawn ''u1'' (Some ''Alice'') 1000)
   \<and> fst (checkRateLimit ''s1'' 999999 one_player)
   \<and> validateMovement (Some \<lparr> pos_x = Num 500, pos_y = Num 500 \<rparr>) (upd_position (mk_update 600 500)) None = Inr False
   \<and> step one_player (PlayerMove ''s1'' (mk_update 600 500) 999999 999999)
       = (one_player\<lparr> rateLimits := [''s1'' \<mapsto> 999999] \<rparr>,
          [Emit ''s1'' (PlayerPositionReset \<lparr> pos_x = Num 500, pos_y = Num 500 \<rparr>)])"
proof -
  let ?c = "\<lparr> userId = ''u1'', worldId = ''w'', world = 0 \<rparr>"
  let ?p = "spawn ''u1'' (Some ''Alice'') 1000"
  have h1: "map_of (sessions one_player) ''s1'' = Some ?c"
    by (simp add: one_player_fields)
  have h2: "map_of (heap one_player (world ?c)) (userId ?c) = Some ?p"
    by (simp add: one_player_fields)
  have h3: "fst (checkRateLimit ''s1'' 999999 one_player)"
    by (simp add: checkRateLimit_def one_player_fields UPDATE_RATE_LIMIT_def)
  have h4: "validateMovement (Some (position ?p)) (upd_position (mk_update 600 500)) None = Inr False"
    using validateMovement_axis [of 600 500 100 500] by (simp add: spawn_def mk_update_def)
  from rejected_move_soft_fail [OF h1 h2 h3 h4, of 999999]
  show ?thesis using h1 h2 h3 h4 by (simp add: one_player_fields spawn_def)
qed

section \<open>C3: the rate limiter\<close>

text \<open>
  Claim C3.  The minimum interval is 50 ms.  Once a move event of a connection
  has passed the gate at time \<open>t1\<close>, the limiter's clock of that connection is
  \<open>t1\<close>, whatever the handler went on to do with the position (accepted,
  rejected by the validator, or failed).  A next move event less than 50 ms
  after \<open>t1\<close> is dropped: the state is unchanged and nothing is sent to anyone.
  An event at least 50 ms after \<open>t1\<close> passes the gate, also when a dropped
  event came in between.
\<close>

theorem rate_limit_gate:
  assumes "map_of (sessions st) sock = Some c"
    and "fst (checkRateLimit sock t1 st)"
    and "st1 = fst (step st (PlayerMove sock u1 t1 s1))"
  shows "UPDATE_RATE_LIMIT = 50
       \<and> rateLimits st1 sock = Some t1
       \<and> (t2 - t1 < UPDATE_RATE_LIMIT \<longrightarrow> step st1 (PlayerMove sock u2 t2 s2) = (st1, []))
       \<and> (t3 - t1 \<ge> UPDATE_RATE_LIMIT \<longrightarrow>
            fst (checkRateLimit sock t3 st1)
          \<and> (t2 - t1 < UPDATE_RATE_LIMIT \<longrightarrow>
               fst (checkRateLimit sock t3 (fst (step st1 (PlayerMove sock u2 t2 s2))))))"
proof -
  from assms(2) have g': "checkRateLimit sock t1 st = (True, st\<lparr> rateLimits := (rateLimits st)(sock \<mapsto> t1) \<rparr>)"
    by (auto simp: checkRateLimit_def Let_def split: if_splits)
  have r: "rateLimits st1 sock = Some t1" and s: "map_of (sessions st1) sock = Some c"
    using assms(1,3)
    by (auto simp: step_def player_move_def g' Let_def split: option.splits sum.splits)
  have drop: "step st1 (PlayerMove sock u2 t2 s2) = (st1, [])" if "t2 - t1 < UPDATE_RATE_LIMIT"
    using that r s by (simp add: step_def player_move_def checkRateLimit_def Let_def)
  have pass: "fst (checkRateLimit sock t3 st1)" if "t3 - t1 \<ge> UPDATE_RATE_LIMIT"
    using that r by (simp add: checkRateLimit_def Let_def)
  show ?thesis using r drop pass by (simp add: UPDATE_RATE_LIMIT_def)
qed

theorem rate_limit_gate_witness:
  "map_of (sessions one_player) ''s1'' = Some \<lparr> userId = ''u1'', worldId = ''w'', world = 0 \<rparr>
   \<and> fst (checkRateLimit ''s1'' 1000000 one_player)
   \<and> rateLimits (fst (step one_player (PlayerMove ''s1'' (mk_update 600 500) 1000000 1000000))) ''s1''
        = Some 1000000
   \<and> step (fst (step one_player (PlayerMove ''s1'' (mk_update 600 500) 1000000 1000000)))
          (PlayerMove ''s1'' (mk_update 505 500) 1000010 1000010)
        = (fst (step one_player (PlayerMove ''s1'' (mk_update 600 500) 1000000 1000000)), [])
   \<and> fst (checkRateLimit ''s1'' 1000060
            (fst (step (fst (step one_player (PlayerMove ''s1'' (mk_update 600 500) 1000000 1000000)))
                    (PlayerMove ''s1'' (mk_update 505 500) 1000010 1000010))))"
proof -
  let ?c = "\<lparr> userId = ''u1'', worldId = ''w'', world = 0 \<rparr>"
  have h1: "map_of (sessions one_player) ''s1'' = Some ?c"
    by (simp add: one_player_fields)
  have h2: "fst (checkRateLimit ''s1'' 1000000 one_player)"
    by (simp add: checkRateLimit_def one_player_fields UPDATE_RATE_LIMIT_def)
  from rate_limit_gate [OF h1 h2 refl, where ?t2.0 = 1000010 and ?u2.0 = "mk_update 505 500"
      and ?s2.0 = 1000010 and ?t3.0 = 1000060 and ?u1.0 = "mk_update 600 500" and ?s1.0 = 1000000]
  show ?thesis using h1 h2 by (simp add: UPDATE_RATE_LIMIT_def)
qed

section \<open>C4: chat messages\<close>

text \<open>
  Claim C4 as stated does not hold: the chat handler has no check on the
  message at all.  The empty message of a connected player is stamped and
  broadcast to the whole room like any other; nothing is rejected.
\<close>

theorem chat_empty_message_counterexample:
  "step two_players (ChatEvent ''s1'' [] 3000)
     = (two_players, [Emit ''s1'' (ChatMessage ''u1'' ''Alice'' [] 3000),
                      Emit ''s2'' (ChatMessage ''u1'' ''Alice'' [] 3000)])"
  by (simp add: step_def chat_message_def io_to_def room_members_def two_players_fields spawn_def truthy_def)

text \<open>
  Claim C4, amended.  In every reachable state, every chat message (of any
  content and length, the empty one included) of a connection whose player
  record is in its world leaves the state unchanged and is broadcast, stamped
  with the sender's user id and user name, to the members of the sender's
  room: each member receives exactly one copy (the list of recipients has no
  repetition) and the sender is among them.
\<close>

theorem chat_broadcast_to_room:
  assumes "st = run init evs"
    and "map_of (sessions st) sock = Some c"
    and "map_of (heap st (world c)) (userId c) = Some p"
  shows "step st (ChatEvent sock msg now)
           = (st, map (\<lambda>s. Emit s (ChatMessage (userId c) (username p) msg now))
                      (room_members st (worldId c)))
       \<and> distinct (room_members st (worldId c))
       \<and> sock \<in> set (room_members st (worldId c))
       \<and> player_id p = userId c"
proof -
  have d: "distinct (map fst (sessions st))" and i: "ids_match (heap st)"
    unfolding assms(1) by (rule reachable_invariants)+
  show ?thesis
    using assms(2,3) distinct_room_members [OF d] member_room_members [OF assms(2)]
      ids_match_lookup [OF i assms(3)]
    by (simp add: step_def chat_message_def io_to_def)
qed

theorem chat_broadcast_to_room_witness:
  "map_of (sessions two_players) ''s1'' = Some \<lparr> userId = ''u1'', worldId = ''w'', world = 0 \<rparr>
   \<and> map_of (heap two_players 0) ''u1'' = Some (spawn ''u1'' (Some ''Alice'') 1000)
   \<and> room_members two_players ''w'' = [''s1'', ''s2'']
   \<and> step two_players (ChatEvent ''s1'' ''hello'' 3000)
       = (two_players, [Emit ''s1'' (ChatMessage ''u1'' ''Alice'' ''hello'' 3000),
                        Emit ''s2'' (ChatMessage ''u1'' ''Alice'' ''hello'' 3000)])"
proof -
  let ?c = "\<lparr> userId = ''u1'', worldId = ''w'', world = 0 \<rparr>"
  have h1: "map_of (sessions two_players) ''s1'' = Some ?c"
    by (simp add: two_players_fields)
  have h2: "map_of (heap two_players (world ?c)) (userId ?c) = Some (spawn ''u1'' (Some ''Alice'') 1000)"
    by (simp add: two_players_fields)
  have r: "room_members two_players ''w'' = [''s1'', ''s2'']"
    by (simp add: room_members_def two_players_fields)
  from chat_broadcast_to_room [OF two_players_def h1 h2, of "''hello''" 3000]
  show ?thesis using h1 h2 r by (simp add: spawn_def truthy_def)
qed

section \<open>C5: the periodic cleanup\<close>

text \<open>
  Claim C5 against the code.  Two players are in world \<open>w\<close>; at the sweep the
  first has been silent for more than five minutes.  The sweep removes the
  stale player's record but emits nothing: no \<^verbatim>\<open>player:left\<close> reaches the
  remaining member, and the stale player's socket stays in the room.  The
  disconnect handler, on the same state, does notify the remaining member.
\<close>

theorem reaper_sweep_is_silent:
  "snd (step two_players (Cleanup 301001)) = []
   \<and> heap (fst (step two_players (Cleanup 301001))) 0 = [(''u2'', spawn ''u2'' (Some ''Bob'') 2000)]
   \<and> room_members (fst (step two_players (Cleanup 301001))) ''w'' = [''s1'', ''s2'']
   \<and> snd (step two_players (Disconnect ''s1'')) = [Emit ''s2'' (PlayerLeft ''u1'')]"
  by (simp add: step_def cleanup_def on_disconnect_def socket_to_def room_members_def
        two_players_fields spawn_def Let_def)

section \<open>C6: registry presence and membership\<close>

text \<open>
  Claim C6 against the code.  The disconnect handler tests the emptiness of
  the inner map its closure captured, but deletes the registry entry by world
  id.  When the captured map is no longer the registered one, the handler
  drops the registry entry of a world that has a connected member with a
  player record: after either trace, world \<open>w\<close> is absent from the registry
  while one socket is in its room and its player is in the map that socket
  uses.
\<close>

theorem live_world_dropped_from_registry:
  "map_of (worlds (run init stale_closure_trace)) ''w'' = None
   \<and> room_members (run init stale_closure_trace) ''w'' = [''s3'']
   \<and> map_of (sessions (run init stale_closure_trace)) ''s3''
        = Some \<lparr> userId = ''v'', worldId = ''w'', world = 1 \<rparr>
   \<and> heap (run init stale_closure_trace) 1 = [(''v'', spawn ''v'' (Some ''B'') 20)]
   \<and> map_of (worlds (run init reaped_closure_trace)) ''w'' = None
   \<and> room_members (run init reaped_closure_trace) ''w'' = [''s2'']
   \<and> map_of (sessions (run init reaped_closure_trace)) ''s2''
        = Some \<lparr> userId = ''v'', worldId = ''w'', world = 1 \<rparr>
   \<and> heap (run init reaped_closure_trace) 1 = [(''v'', spawn ''v'' (Some ''B'') 300002)]"
  by (simp add: stale_closure_trace_def reaped_closure_trace_def handler_defs example_defs Let_def)

section \<open>C7: the snapshot and the join broadcast\<close>

text \<open>
  Claim C7 as stated does not hold for an admission under an id that is
  already in the world: the snapshot is taken before the insertion and
  carries the record stored under that id, so the joining player finds its
  own id in its snapshot (and, when both admissions read the same clock value,
  the very record that is inserted).
\<close>

theorem snapshot_contains_own_id_counterexample:
  "snd (step one_player (Connection ''s2'' (mk_auth ''u1'' ''w'' ''Alice'') 2000))
     = [Emit ''s2'' (WorldState [spawn ''u1'' (Some ''Alice'') 1000]),
        Emit ''s1'' (PlayerJoined (spawn ''u1'' (Some ''Alice'') 2000))]
   \<and> player_id (spawn ''u1'' (Some ''Alice'') 1000) = ''u1''
   \<and> snd (step one_player (Connection ''s2'' (mk_auth ''u1'' ''w'' ''Alice'') 1000))
     = [Emit ''s2'' (WorldState [spawn ''u1'' (Some ''Alice'') 1000]),
        Emit ''s1'' (PlayerJoined (spawn ''u1'' (Some ''Alice'') 1000))]"
  by (simp add: step_def on_connection_def getWorld_def one_player_fields mk_auth_def truthy_def
        MAX_PLAYERS_PER_WORLD_def Let_def socket_to_def room_members_def)
     (simp add: spawn_def)

text \<open>
  Claim C7, amended.  In every reachable state, a successful admission (fresh
  socket, well-formed handshake, world below capacity) sends the new
  connection the records the world held immediately before the insertion,
  and sends \<^verbatim>\<open>player:joined\<close> with the new record to every connection that was
  in the room before, once each, and not to the new connection, which joins
  the room.  If the id was not in the world before, no record of the
  snapshot carries it; if it was, the snapshot carries the record that the
  admission replaces.
\<close>

theorem admission_snapshot_and_join:
  assumes "st = run init evs"
    and "map_of (sessions st) sock = None"
    and "truthy (auth_userId auth) = Some uid"
    and "truthy (auth_worldId auth) = Some wid"
    and "before = (case map_of (worlds st) wid of None \<Rightarrow> [] | Some a \<Rightarrow> heap st a)"
    and "length before < MAX_PLAYERS_PER_WORLD"
  shows "snd (step st (Connection sock auth now))
           = Emit sock (WorldState (map snd before))
             # map (\<lambda>s. Emit s (PlayerJoined (spawn uid (auth_username auth) now)))
                   (room_members st wid)
       \<and> sock \<notin> set (room_members st wid)
       \<and> distinct (room_members st wid)
       \<and> room_members (fst (step st (Connection sock auth now))) wid = room_members st wid @ [sock]
       \<and> (map_of before uid = None \<longrightarrow> (\<forall>q \<in> set (map snd before). player_id q \<noteq> uid))
       \<and> (\<forall>q. map_of before uid = Some q \<longrightarrow> q \<in> set (map snd before) \<and> player_id q = uid)"
proof -
  have d: "distinct (map fst (sessions st))" and i: "ids_match (heap st)"
    unfolding assms(1) by (rule reachable_invariants)+
  note f = assms(2)
  have ids: "(map_of before uid = None \<longrightarrow> (\<forall>q \<in> set (map snd before). player_id q \<noteq> uid))
       \<and> (\<forall>q. map_of before uid = Some q \<longrightarrow> q \<in> set (map snd before) \<and> player_id q = uid)"
  proof (cases "map_of (worlds st) wid")
    case None
    then show ?thesis by (simp add: assms(5))
  next
    case (Some a)
    then show ?thesis using snapshot_ids [OF i, of a uid] by (simp add: assms(5))
  qed
  have out: "snd (step st (Connection sock auth now))
           = Emit sock (WorldState (map snd before))
             # map (\<lambda>s. Emit s (PlayerJoined (spawn uid (auth_username auth) now)))
                   (room_members st wid)
        \<and> room_members (fst (step st (Connection sock auth now))) wid = room_members st wid @ [sock]"
  proof (cases "map_of (worlds st) wid")
    case None
    then show ?thesis using assms(2-6)
      by (simp add: step_def on_connection_def getWorld_def Let_def MAX_PLAYERS_PER_WORLD_def
            socket_to_after_join [OF f] room_members_join [OF f])
  next
    case (Some a)
    then show ?thesis using assms(2-6)
      by (simp add: step_def on_connection_def getWorld_def Let_def MAX_PLAYERS_PER_WORLD_def
            socket_to_after_join [OF f] room_members_join [OF f])
  qed
  show ?thesis
    using out ids room_members_fresh [OF f, of wid] distinct_room_members [OF d, of wid]
    by blast
qed

theorem admission_snapshot_and_join_witness:
  "map_of (sessions one_player) ''s2'' = None
   \<and> truthy (auth_userId (mk_auth ''u2'' ''w'' ''Bob'')) = Some ''u2''
   \<and> truthy (auth_worldId (mk_auth ''u2'' ''w'' ''Bob'')) = Some ''w''
   \<and> length (heap one_player 0) < MAX_PLAYERS_PER_WORLD
   \<and> map_of (heap one_player 0) ''u2'' = None
   \<and> snd (step one_player (Connection ''s2'' (mk_auth ''u2'' ''w'' ''Bob'') 2000))
       = [Emit ''s2'' (WorldState [spawn ''u1'' (Some ''Alice'') 1000]),
          Emit ''s1'' (PlayerJoined (spawn ''u2'' (Some ''Bob'') 2000))]
   \<and> player_id (spawn ''u1'' (Some ''Alice'') 1000) \<noteq> ''u2''"
proof -
  have h2: "map_of (sessions one_player) ''s2'' = None" by (simp add: one_player_fields)
  have h3: "truthy (auth_userId (mk_auth ''u2'' ''w'' ''Bob'')) = Some ''u2''"
    by (simp add: truthy_def mk_auth_def)
  have h4: "truthy (auth_worldId (mk_auth ''u2'' ''w'' ''Bob'')) = Some ''w''"
    by (simp add: truthy_def mk_auth_def)
  have h5: "heap one_player 0 = (case map_of (worlds one_player) ''w'' of None \<Rightarrow> [] | Some a \<Rightarrow> heap one_player a)"
    by (simp add: one_player_fields)
  have h6: "length (heap one_player 0) < MAX_PLAYERS_PER_WORLD"
    by (simp add: one_player_fields MAX_PLAYERS_PER_WORLD_def)
  have n: "map_of (heap one_player 0) ''u2'' = None" by (simp add: one_player_fields)
  have r: "room_members one_player ''w'' = [''s1'']" by (simp add: room_members_def one_player_fields)
  from admission_snapshot_and_join [OF one_player_def h2 h3 h4 h5 h6, of 2000]
  show ?thesis using h2 h3 h4 h6 n r by (simp add: one_player_fields mk_auth_def)
qed

section \<open>C8: admission to a full room\<close>

text \<open>
  Claim C8.  The capacity is 50.  An admission attempt with a well-formed
  handshake on a world that already holds at least 50 players is answered with
  the error message ``World is full'' followed by the forced disconnect of the
  new socket, and the whole server state, in particular the world's
  membership and its size, is what it was before.
\<close>

theorem room_full_rejected:
  assumes "map_of (sessions st) sock = None"
    and "truthy (auth_userId auth) = Some uid"
    and "truthy (auth_worldId auth) = Some wid"
    and "map_of (worlds st) wid = Some a"
    and "length (heap st a) \<ge> MAX_PLAYERS_PER_WORLD"
  shows "MAX_PLAYERS_PER_WORLD = 50 \<and>
         step st (Connection sock auth now)
           = (st, [Emit sock (Error ''World is full''), Disconnected sock])"
  using assms by (simp add: step_def on_connection_def getWorld_def MAX_PLAYERS_PER_WORLD_def)

theorem room_full_rejected_witness:
  "map_of (sessions full_world) ''t'' = None
   \<and> truthy (auth_userId (mk_auth ''late'' ''w'' ''L'')) = Some ''late''
   \<and> truthy (auth_worldId (mk_auth ''late'' ''w'' ''L'')) = Some ''w''
   \<and> map_of (worlds full_world) ''w'' = Some 0
   \<and> length (heap full_world 0) = 50
   \<and> step full_world (Connection ''t'' (mk_auth ''late'' ''w'' ''L'') 7)
       = (full_world, [Emit ''t'' (Error ''World is full''), Disconnected ''t''])"
proof -
  have h1: "map_of (sessions full_world) ''t'' = None" by (rule full_world_fields)
  have h2: "truthy (auth_userId (mk_auth ''late'' ''w'' ''L'')) = Some ''late''"
    by (simp add: truthy_def mk_auth_def)
  have h3: "truthy (auth_worldId (mk_auth ''late'' ''w'' ''L'')) = Some ''w''"
    by (simp add: truthy_def mk_auth_def)
  have h4: "map_of (worlds full_world) ''w'' = Some 0" by (rule full_world_fields)
  have h5: "length (heap full_world 0) \<ge> MAX_PLAYERS_PER_WORLD"
    by (simp add: full_world_fields MAX_PLAYERS_PER_WORLD_def)
  from room_full_rejected [OF h1 h2 h3 h4 h5, of 7]
  show ?thesis using h1 h2 h3 h4 by (simp add: full_world_fields)
qed

section \<open>C9: world bounds\<close>

text \<open>
  Claim C9 as stated does not hold: the server knows no world bounds.  A
  client that walks left from the spawn position in 34 steps of 15 units, one
  every 50 ms, has every step accepted and ends at \<open>x = -10\<close>, outside the
  plane whatever its width and height (the client draws 2000 by 2000).
\<close>

theorem walk_out_of_bounds_counterexample:
  "map_option position (map_of (heap (run one_player (walk_left 34)) 0) ''u1'')
     = Some \<lparr> pos_x = Num (- 10), pos_y = Num 500 \<rparr>
   \<and> \<not> within_bounds 2000 2000 \<lparr> pos_x = Num (- 10), pos_y = Num 500 \<rparr>"
  using walk_left_state [of 34] by (simp add: within_bounds_def)

text \<open>
  Claim C9, amended.  A player is spawned at \<open>(500, 500)\<close>.  A move event
  leaves the mover's position either unchanged or at the proposed position;
  in the latter case the distance from the previous position, as the
  validator computes it in double precision, is at most 15, and the Euclidean
  distance is at most \<open>15 + 2 ^ -40\<close>.  No other player's record changes.  No
  bound on the position itself is enforced.
\<close>

theorem accepted_move_within_maxSpeed:
  assumes "map_of (sessions st) sock = Some c"
    and "map_of (heap st (world c)) (userId c) = Some p"
  shows "position (spawn uid uname t) = \<lparr> pos_x = Num 500, pos_y = Num 500 \<rparr>
       \<and> (\<exists>p'. map_of (heap (fst (step st (PlayerMove sock u now now2))) (world c)) (userId c) = Some p'
              \<and> (position p' = position p
                 \<or> upd_position u = Some (position p')
                   \<and> js_le (computed_distance (position p') (position p)) (Num 15)
                   \<and> euclid_le (position p') (position p) (15 + 1 / 2 ^ 40)))
       \<and> (\<forall>a k. (a, k) \<noteq> (world c, userId c) \<longrightarrow>
              map_of (heap (fst (step st (PlayerMove sock u now now2))) a) k = map_of (heap st a) k)"
proof -
  have e: "js_le (computed_distance np (position p)) (Num 15)
           \<and> euclid_le np (position p) (15 + 1 / 2 ^ 40)"
    if "validateMovement (Some (position p)) (Some np) None = Inr True" for np
  proof -
    from that have j: "js_le (computed_distance np (position p)) (Num 15)"
      by (simp add: validateMovement_computed)
    from j accepted_implies_euclid [OF j] show ?thesis by blast
  qed
  show ?thesis
    using assms e
    by (auto simp: spawn_def step_def player_move_def checkRateLimit_def Let_def update_conv'
          split: option.splits sum.splits if_splits)
qed

theorem accepted_move_within_maxSpeed_witness:
  "map_of (sessions one_player) ''s1'' = Some \<lparr> userId = ''u1'', worldId = ''w'', world = 0 \<rparr>
   \<and> map_of (heap one_player 0) ''u1'' = Some (spawn ''u1'' (Some ''Alice'') 1000)
   \<and> (\<exists>p'. map_of (heap (fst (step one_player (PlayerMove ''s1'' (mk_update 490 500) 1000000 1000000))) 0) ''u1''
              = Some p'
           \<and> (position p' = \<lparr> pos_x = Num 500, pos_y = Num 500 \<rparr>
              \<or> upd_position (mk_update 490 500) = Some (position p')
                \<and> euclid_le (position p') \<lparr> pos_x = Num 500, pos_y = Num 500 \<rparr> (15 + 1 / 2 ^ 40)))"
proof -
  let ?c = "\<lparr> userId = ''u1'', worldId = ''w'', world = 0 \<rparr>"
  have h1: "map_of (sessions one_player) ''s1'' = Some ?c"
    by (simp add: one_player_fields)
  have h2: "map_of (heap one_player (world ?c)) (userId ?c) = Some (spawn ''u1'' (Some ''Alice'') 1000)"
    by (simp add: one_player_fields)
  have p: "position (spawn ''u1'' (Some ''Alice'') 1000) = \<lparr> pos_x = Num 500, pos_y = Num 500 \<rparr>"
    by (simp add: spawn_def)
  from accepted_move_within_maxSpeed [OF h1 h2, where u = "mk_update 490 500"
      and now = 1000000 and ?now2.0 = 1000000]
  have "\<exists>p'. map_of (heap (fst (step one_player (PlayerMove ''s1'' (mk_update 490 500) 1000000 1000000)))
                     (world ?c)) (userId ?c) = Some p'
           \<and> (position p' = position (spawn ''u1'' (Some ''Alice'') 1000)
              \<or> upd_position (mk_update 490 500) = Some (position p')
                \<and> euclid_le (position p') (position (spawn ''u1'' (Some ''Alice'') 1000)) (15 + 1 / 2 ^ 40))"
    by blast
  then have "\<exists>p'. map_of (heap (fst (step one_player (PlayerMove ''s1'' (mk_update 490 500) 1000000 1000000))) 0) ''u1''
              = Some p'
           \<and> (position p' = \<lparr> pos_x = Num 500, pos_y = Num 500 \<rparr>
              \<or> upd_position (mk_update 490 500) = Some (position p')
                \<and> euclid_le (position p') \<lparr> pos_x = Num 500, pos_y = Num 500 \<rparr> (15 + 1 / 2 ^ 40))"
    by (simp only: p session.select_convs)
  with h1 h2 show ?thesis by simp
qed

section \<open>C10: admission under an id already in the room\<close>

text \<open>
  Claim C10 as stated does not hold: the capacity check comes first and
  counts the records in the world, so in a world of 50 players an admission
  under the id of one of them is refused with ``World is full''.
\<close>

theorem duplicate_id_full_room_counterexample:
  "map_of (heap full_world 0) ''u'' = Some (spawn ''u'' (Some ''P'') 0)
   \<and> map_of (worlds full_world) ''w'' = Some 0
   \<and> step full_world (Connection ''t'' (mk_auth ''u'' ''w'' ''P'') 7)
       = (full_world, [Emit ''t'' (Error ''World is full''), Disconnected ''t''])"
  by (simp add: full_world_fields step_def on_connection_def getWorld_def truthy_def mk_auth_def
        MAX_PLAYERS_PER_WORLD_def)

text \<open>
  Claim C10, amended.  An admission (fresh socket, well-formed handshake)
  under a player id already present in a target world that holds fewer than
  50 players succeeds: the effects are the snapshot and the
  \<^verbatim>\<open>player:joined\<close> broadcast only (no error, no disconnect, no
  \<^verbatim>\<open>player:left\<close>), the new socket is connected, the record under the id is the
  fresh spawn record, the world keeps its keys and its size, and the
  user-to-socket entry of the id is the new socket, so that an interaction of
  any player of that world with the id is delivered as
  \<^verbatim>\<open>interaction:received\<close> to the new socket only.
\<close>

theorem duplicate_id_replaces_player:
  assumes "map_of (sessions st) sock = None"
    and "truthy (auth_userId auth) = Some uid"
    and "truthy (auth_worldId auth) = Some wid"
    and "map_of (worlds st) wid = Some a"
    and "map_of (heap st a) uid = Some old"
    and "length (heap st a) < MAX_PLAYERS_PER_WORLD"
    and "st' = fst (step st (Connection sock auth now))"
  shows "snd (step st (Connection sock auth now))
           = Emit sock (WorldState (map snd (heap st a)))
             # map (\<lambda>s. Emit s (PlayerJoined (spawn uid (auth_username auth) now)))
                   (room_members st wid)
       \<and> map_of (sessions st') sock = Some \<lparr> userId = uid, worldId = wid, world = a \<rparr>
       \<and> map_of (heap st' a) uid = Some (spawn uid (auth_username auth) now)
       \<and> map fst (heap st' a) = map fst (heap st a)
       \<and> length (heap st' a) = length (heap st a)
       \<and> userSockets st' uid = Some sock
       \<and> (\<forall>sock2 c2 p2.
            map_of (sessions st') sock2 = Some c2 \<longrightarrow> world c2 = a \<longrightarrow>
            map_of (heap st' a) (userId c2) = Some p2 \<longrightarrow>
              step st' (PlayerInteract sock2 uid)
                = (st', [Emit sock2 (InteractionInitiated uid (username (spawn uid (auth_username auth) now))),
                         Emit sock (InteractionReceived (userId c2) (username p2))]))"
proof -
  note f = assms(1)
  let ?p = "spawn uid (auth_username auth) now"
  have st': "st' = st\<lparr> userSockets := (userSockets st)(uid \<mapsto> sock),
                     heap := (heap st)(a := AList.update uid ?p (heap st a)),
                     sessions := AList.update sock \<lparr> userId = uid, worldId = wid, world = a \<rparr> (sessions st) \<rparr>"
    using assms
    by (simp add: step_def on_connection_def getWorld_def Let_def MAX_PLAYERS_PER_WORLD_def)
  have out: "snd (step st (Connection sock auth now))
           = Emit sock (WorldState (map snd (heap st a)))
             # map (\<lambda>s. Emit s (PlayerJoined ?p)) (room_members st wid)"
    using assms(1-6)
    by (simp add: step_def on_connection_def getWorld_def Let_def MAX_PLAYERS_PER_WORLD_def
          socket_to_after_join [OF f])
  have k: "map fst (heap st' a) = map fst (heap st a)"
    by (simp add: st' update_present_keys [OF assms(5)])
  then have l: "length (heap st' a) = length (heap st a)"
    by (metis length_map)
  have i: "step st' (PlayerInteract sock2 uid)
                = (st', [Emit sock2 (InteractionInitiated uid (username ?p)),
                         Emit sock (InteractionReceived (userId c2) (username p2))])"
    if "map_of (sessions st') sock2 = Some c2" "world c2 = a"
       "map_of (heap st' a) (userId c2) = Some p2" for sock2 c2 p2
  proof -
    have s1: "map_of (sessions st') sock = Some \<lparr> userId = uid, worldId = wid, world = a \<rparr>"
      by (simp add: st' update_conv')
    have ht: "map_of (heap st' a) uid = Some ?p"
      by (simp add: st' update_conv')
    have us: "userSockets st' uid = Some sock" by (simp add: st')
    show ?thesis
      using that by (simp add: step_def player_interact_def ht us io_to_socket_def s1)
  qed
  show ?thesis
    using out k l i by (simp add: st' update_conv')
qed

theorem duplicate_id_replaces_player_witness:
  "map_of (sessions two_players) ''s3'' = None
   \<and> truthy (auth_userId (mk_auth ''u1'' ''w'' ''Alice'')) = Some ''u1''
   \<and> truthy (auth_worldId (mk_auth ''u1'' ''w'' ''Alice'')) = Some ''w''
   \<and> map_of (worlds two_players) ''w'' = Some 0
   \<and> map_of (heap two_players 0) ''u1'' = Some (spawn ''u1'' (Some ''Alice'') 1000)
   \<and> length (heap two_players 0) < MAX_PLAYERS_PER_WORLD
   \<and> snd (step two_players (Connection ''s3'' (mk_auth ''u1'' ''w'' ''Alice'') 5000))
        = [Emit ''s3'' (WorldState [spawn ''u1'' (Some ''Alice'') 1000, spawn ''u2'' (Some ''Bob'') 2000]),
           Emit ''s1'' (PlayerJoined (spawn ''u1'' (Some ''Alice'') 5000)),
           Emit ''s2'' (PlayerJoined (spawn ''u1'' (Some ''Alice'') 5000))]
   \<and> map_of (heap duplicate_join 0) ''u1'' = Some (spawn ''u1'' (Some ''Alice'') 5000)
   \<and> length (heap duplicate_join 0) = 2
   \<and> userSockets duplicate_join ''u1'' = Some ''s3''
   \<and> map_of (sessions duplicate_join) ''s2'' = Some \<lparr> userId = ''u2'', worldId = ''w'', world = 0 \<rparr>
   \<and> map_of (heap duplicate_join 0) ''u2'' = Some (spawn ''u2'' (Some ''Bob'') 2000)
   \<and> step duplicate_join (PlayerInteract ''s2'' ''u1'')
        = (duplicate_join, [Emit ''s2'' (InteractionInitiated ''u1'' ''Alice''),
                            Emit ''s3'' (InteractionReceived ''u2'' ''Bob'')])"
proof -
  let ?c2 = "\<lparr> userId = ''u2'', worldId = ''w'', world = 0 \<rparr>"
  have h1: "map_of (sessions two_players) ''s3'' = None" by (simp add: two_players_fields)
  have h2: "truthy (auth_userId (mk_auth ''u1'' ''w'' ''Alice'')) = Some ''u1''"
    by (simp add: truthy_def mk_auth_def)
  have h3: "truthy (auth_worldId (mk_auth ''u1'' ''w'' ''Alice'')) = Some ''w''"
    by (simp add: truthy_def mk_auth_def)
  have h4: "map_of (worlds two_players) ''w'' = Some 0" by (simp add: two_players_fields)
  have h5: "map_of (heap two_players 0) ''u1'' = Some (spawn ''u1'' (Some ''Alice'') 1000)"
    by (simp add: two_players_fields)
  have h6: "length (heap two_players 0) < MAX_PLAYERS_PER_WORLD"
    by (simp add: two_players_fields MAX_PLAYERS_PER_WORLD_def)
  have s2: "map_of (sessions duplicate_join) ''s2'' = Some ?c2"
    by (simp add: duplicate_join_def step_def on_connection_def getWorld_def truthy_def mk_auth_def
          two_players_fields MAX_PLAYERS_PER_WORLD_def Let_def)
  have p2: "map_of (heap duplicate_join 0) (userId ?c2) = Some (spawn ''u2'' (Some ''Bob'') 2000)"
    by (simp add: duplicate_join_def step_def on_connection_def getWorld_def truthy_def mk_auth_def
          two_players_fields MAX_PLAYERS_PER_WORLD_def Let_def)
  have r: "room_members two_players ''w'' = [''s1'', ''s2'']"
    by (simp add: room_members_def two_players_fields)
  note t = duplicate_id_replaces_player [OF h1 h2 h3 h4 h5 h6 duplicate_join_def]
  from t have i: "step duplicate_join (PlayerInteract ''s2'' ''u1'')
        = (duplicate_join, [Emit ''s2'' (InteractionInitiated ''u1'' (username (spawn ''u1'' (auth_username (mk_auth ''u1'' ''w'' ''Alice'')) 5000))),
                            Emit ''s3'' (InteractionReceived (userId ?c2) (username (spawn ''u2'' (Some ''Bob'') 2000)))])"
    using s2 p2 by simp
  show ?thesis
    using t i h1 h2 h3 h4 h5 h6 s2 p2 r
    by (simp add: two_players_fields mk_auth_def) (simp add: spawn_def truthy_def)
qed

end
